theory Spec2Isabelle
  imports Main
begin

section \<open>Hawkeye: the alerting engine of \<^verbatim>\<open>src/hawkeye.js\<close>\<close>

text \<open>
  The script is one closure, \<^verbatim>\<open>nagios_hawk\<close>, over a handful of factories
  (\<^verbatim>\<open>Signal\<close>, \<^verbatim>\<open>ComposeSignal\<close>, \<^verbatim>\<open>AudioSignal\<close>, \<^verbatim>\<open>BlinkerSignal\<close>,
  \<^verbatim>\<open>Hawkeye\<close>). Every factory returns a frozen bundle of functions that share the
  \<^verbatim>\<open>let\<close> variables of the call that made them. The embedding keeps that shape:
  the variables of a factory call live in a cell of an explicit store, a bundle is a
  record of functions on the store, and whatever the browser does between two calls of
  the script (timer ticks, change notifications, clicks, the clock) is a function on
  the same store.

  A call in JavaScript either returns or throws, and what it did before throwing
  stays done. Both ends carry the store.
\<close>

subsection \<open>Calls that may throw, and \<^verbatim>\<open>Array.prototype.forEach\<close>\<close>

datatype ('e, 'w) outcome = Returned 'w | Threw 'e 'w

text \<open>
  \<^verbatim>\<open>xs.forEach(f)\<close>: \<open>f\<close> is called on the elements from left to right; an
  exception thrown by one call leaves \<^verbatim>\<open>forEach\<close> at once.
\<close>

fun forEach :: "'a list \<Rightarrow> ('a \<Rightarrow> 'w \<Rightarrow> ('e, 'w) outcome) \<Rightarrow> 'w \<Rightarrow> ('e, 'w) outcome" where
  "forEach [] f w = Returned w"
| "forEach (x # xs) f w =
     (case f x w of
        Returned w' \<Rightarrow> forEach xs f w'
      | Threw e w' \<Rightarrow> Threw e w')"

subsection \<open>The signal interface and \<^verbatim>\<open>ComposeSignal\<close>\<close>

type_synonym elem = nat

text \<open>
  What every factory of the family returns: \<^verbatim>\<open>Object.freeze({start, stop, add, empty})\<close>.
\<close>

record ('e, 'w) signal =
  start :: "'w \<Rightarrow> ('e, 'w) outcome"
  stop :: "'w \<Rightarrow> ('e, 'w) outcome"
  add :: "elem \<Rightarrow> 'w \<Rightarrow> ('e, 'w) outcome"
  empty :: "'w \<Rightarrow> ('e, 'w) outcome"

definition ComposeSignal :: "('e, 'w) signal list \<Rightarrow> ('e, 'w) signal" where
  "ComposeSignal signals =
     \<lparr> start = forEach signals (\<lambda>signal. start signal),
       stop = forEach signals (\<lambda>signal. stop signal),
       add = (\<lambda>element. forEach signals (\<lambda>signal. add signal element)),
       empty = forEach signals (\<lambda>signal. empty signal) \<rparr>"

text \<open>
  An invocation-order recorder. \<open>traced k s\<close> behaves as the signal \<open>s\<close> on its own
  part of the store and appends to a log, at every call, its number \<open>k\<close>, the operation
  and whether the call returned.
\<close>

datatype opname = OpStart | OpStop | OpAdd elem | OpEmpty

fun perform :: "opname \<Rightarrow> ('e, 'w) signal \<Rightarrow> 'w \<Rightarrow> ('e, 'w) outcome" where
  "perform OpStart s = start s"
| "perform OpStop s = stop s"
| "perform (OpAdd element) s = add s element"
| "perform OpEmpty s = empty s"

type_synonym call = "nat \<times> opname \<times> bool"

definition logged ::
  "nat \<Rightarrow> opname \<Rightarrow> ('w \<Rightarrow> ('e, 'w) outcome) \<Rightarrow> call list \<times> 'w \<Rightarrow> ('e, call list \<times> 'w) outcome"
where
  "logged k nm f = (\<lambda>(log, w).
     case f w of
       Returned w' \<Rightarrow> Returned (log @ [(k, nm, True)], w')
     | Threw e w' \<Rightarrow> Threw e (log @ [(k, nm, False)], w'))"

definition traced :: "nat \<Rightarrow> ('e, 'w) signal \<Rightarrow> ('e, call list \<times> 'w) signal" where
  "traced k s =
     \<lparr> start = logged k OpStart (start s),
       stop = logged k OpStop (stop s),
       add = (\<lambda>element. logged k (OpAdd element) (add s element)),
       empty = logged k OpEmpty (empty s) \<rparr>"

definition numbered :: "nat \<Rightarrow> ('e, 'w) signal list \<Rightarrow> ('e, call list \<times> 'w) signal list" where
  "numbered n ss = map (\<lambda>(k, s). traced k s) (enumerate n ss)"

text \<open>Two sub-signals for experiments on a counter: one returns, one throws.\<close>

definition steady :: "(string, nat) signal" where
  "steady = \<lparr> start = (\<lambda>n. Returned (Suc n)), stop = (\<lambda>n. Returned (Suc n)),
              add = (\<lambda>element n. Returned (Suc n)), empty = (\<lambda>n. Returned (Suc n)) \<rparr>"

definition broken :: "(string, nat) signal" where
  "broken = \<lparr> start = (\<lambda>n. Threw ''start'' n), stop = (\<lambda>n. Threw ''stop'' n),
              add = (\<lambda>element n. Threw ''add'' n), empty = (\<lambda>n. Threw ''empty'' n) \<rparr>"

subsection \<open>The startup filter \<^verbatim>\<open>ignore_too_early_call\<close>\<close>

text \<open>
  \<^verbatim>\<open>ignore_too_early_call(fnct, delta)\<close> declares three variables and returns a
  function closed over them. \<open>ignore_too_early_call\<close> below is the state the call
  creates (\<^verbatim>\<open>Date.now()\<close> is its argument); \<open>filtered\<close> is the body of the
  returned function, run at clock reading \<open>now\<close>. When \<^verbatim>\<open>fnct()\<close> throws, the
  assignment \<^verbatim>\<open>first = false\<close> after it is not reached.
\<close>

record debounce =
  first :: bool
  early :: bool
  mark :: int

definition ignore_too_early_call :: "int \<Rightarrow> debounce" where
  "ignore_too_early_call now = \<lparr> first = True, early = True, mark = now \<rparr>"

definition filtered ::
  "('w \<Rightarrow> ('e, 'w) outcome) \<Rightarrow> int \<Rightarrow> int \<Rightarrow> debounce \<Rightarrow> 'w \<Rightarrow> debounce \<times> ('e, 'w) outcome"
where
  "filtered fnct delta now d w =
     (let d1 = (if now - mark d \<le> delta then d\<lparr>early := True\<rparr> else d) in
      if \<not> early d1 \<or> \<not> first d1 then
        (case fnct w of
           Returned w' \<Rightarrow> (d1\<lparr>first := False\<rparr>, Returned w')
         | Threw e w' \<Rightarrow> (d1, Threw e w'))
      else (d1\<lparr>first := False\<rparr>, Returned w))"

text \<open>
  A probe for the filter: the wrapped function notes the clock reading at which it was
  called, and \<open>notified\<close> calls the filter once at each reading of a list.
\<close>

record probe =
  reading :: int
  noted :: "int list"

definition note_call :: "probe \<Rightarrow> (string, probe) outcome" where
  "note_call p = Returned (p\<lparr>noted := noted p @ [reading p]\<rparr>)"

fun notified :: "int \<Rightarrow> int list \<Rightarrow> debounce \<Rightarrow> probe \<Rightarrow> debounce \<times> (string, probe) outcome" where
  "notified delta [] d p = (d, Returned p)"
| "notified delta (t # ts) d p =
     (case filtered note_call delta t d (p\<lparr>reading := t\<rparr>) of
        (d', Returned p') \<Rightarrow> notified delta ts d' p'
      | (d', Threw e p') \<Rightarrow> (d', Threw e p'))"

definition fresh_probe :: probe where
  "fresh_probe = \<lparr> reading = 0, noted = [] \<rparr>"

subsection \<open>The browser: timers, class lists, listeners, the audio element\<close>

text \<open>
  The store. A \<^verbatim>\<open>BlinkerSignal\<close> or \<^verbatim>\<open>AudioSignal\<close> call owns one cell with
  its \<^verbatim>\<open>let\<close> variables; a reference is the cell's index, and cells are never
  freed. What a bundle of functions is, is decided by the cells it was closed over, so
  a bundle is named by them. \<^verbatim>\<open>ComposeSignal\<close> keeps no variable of its own beyond
  the list it was given; each call is numbered so that two composed bundles are two
  objects.

  Elements are taken as the JSDoc types them (\<^verbatim>\<open>Element\<close>, never \<^verbatim>\<open>null\<close>),
  class names as valid tokens, and the \<^verbatim>\<open>log\<close> helpers, which only print, are
  left out. So a document of the store has both anchors, \<^verbatim>\<open>be-hosts\<close> and
  \<^verbatim>\<open>be-dash\<close>. On a page where one is missing \<^verbatim>\<open>getElementById\<close> gives
  \<^verbatim>\<open>null\<close>, and \<^verbatim>\<open>connect()\<close> and \<^verbatim>\<open>disconnect()\<close> throw a
  \<^verbatim>\<open>TypeError\<close> at their first use of it (\<^verbatim>\<open>disconnect()\<close> before it reaches
  \<^verbatim>\<open>signal.stop()\<close>): those calls do not return, and nothing below is said of them.
\<close>

type_synonym ref = nat
type_synonym timer = nat

datatype sigref = SBlinker ref | SAudio ref | SCompose nat "sigref list"

text \<open>What \<^verbatim>\<open>setInterval\<close> was given: \<^verbatim>\<open>update\<close> of a blinker, or
  \<^verbatim>\<open>function() { audio.play(); }\<close> of an alarm.\<close>

datatype job = BlinkerTick ref | AudioTick ref

text \<open>The variable \<^verbatim>\<open>i\<close>: declared without a value, then a number; \<^verbatim>\<open>NaN\<close>
  once arithmetic on it has no numeric result.\<close>

datatype cursor = Undefined | Num nat | NaN

record blinker =
  b_on :: string
  b_off :: string
  b_time :: int
  b_pattern :: string
  b_targets :: "elem list"
  b_timer :: "timer option"
  b_i :: cursor

text \<open>
  The audio element behind \<^verbatim>\<open>new Audio(uri)\<close>. \<^verbatim>\<open>play()\<close> returns a promise:
  fulfilled when playback starts, rejected when it cannot (\<open>m_fails\<close>, set by the
  browser). A rejected promise that nobody handles is counted in \<open>m_unhandled\<close>.
\<close>

record media =
  m_src :: string
  m_paused :: bool
  m_fails :: bool
  m_requests :: nat
  m_unhandled :: nat

record audio =
  a_time :: int
  a_targets :: "elem list"
  a_timer :: "timer option"
  a_audio :: media

record watcher =
  h_source :: elem
  h_targets :: "elem list"
  h_signal :: sigref
  h_observed :: "elem list"
  h_filter :: debounce

record document =
  d_url :: string
  d_be_hosts :: elem
  d_be_dash :: elem
  d_styles :: "string list"

record world =
  clock :: int
  blinkers :: "blinker list"
  audios :: "audio list"
  composed :: nat
  watchers :: "watcher list"
  intervals :: "(timer \<times> job \<times> int) list"
  next_timer :: timer
  classes :: "elem \<Rightarrow> string list"
  listeners :: "elem \<Rightarrow> sigref list"
  frame_doc :: document

definition setInterval :: "job \<Rightarrow> int \<Rightarrow> world \<Rightarrow> timer \<times> world" where
  "setInterval j time w =
     (next_timer w,
      w\<lparr>intervals := intervals w @ [(next_timer w, j, time)], next_timer := Suc (next_timer w)\<rparr>)"

definition clearInterval :: "timer \<Rightarrow> world \<Rightarrow> world" where
  "clearInterval t w = w\<lparr>intervals := filter (\<lambda>(t', j, time). t' \<noteq> t) (intervals w)\<rparr>"

definition classList_add :: "string \<Rightarrow> string list \<Rightarrow> string list" where
  "classList_add c cl = (if c \<in> set cl then cl else cl @ [c])"

definition classList_remove :: "string \<Rightarrow> string list \<Rightarrow> string list" where
  "classList_remove c cl = filter (\<lambda>c'. c' \<noteq> c) cl"

text \<open>A listener is added once per element and function; removing it removes that one.\<close>

definition addEventListener :: "elem \<Rightarrow> sigref \<Rightarrow> world \<Rightarrow> world" where
  "addEventListener e s w =
     (if s \<in> set (listeners w e) then w
      else w\<lparr>listeners := (listeners w)(e := listeners w e @ [s])\<rparr>)"

definition removeEventListener :: "elem \<Rightarrow> sigref \<Rightarrow> world \<Rightarrow> world" where
  "removeEventListener e s w =
     w\<lparr>listeners := (listeners w)(e := filter (\<lambda>s'. s' \<noteq> s) (listeners w e))\<rparr>"

subsection \<open>\<^verbatim>\<open>Signal\<close> and \<^verbatim>\<open>BlinkerSignal\<close>\<close>

definition blinker_add :: "ref \<Rightarrow> elem \<Rightarrow> world \<Rightarrow> world" where
  "blinker_add r element w =
     w\<lparr>blinkers := (blinkers w)[r := (blinkers w ! r)\<lparr>b_targets := b_targets (blinkers w ! r) @ [element]\<rparr>]\<rparr>"

definition blinker_empty :: "ref \<Rightarrow> world \<Rightarrow> world" where
  "blinker_empty r w =
     w\<lparr>blinkers := (blinkers w)[r := (blinkers w ! r)\<lparr>b_targets := []\<rparr>]\<rparr>"

text \<open>\<^verbatim>\<open>pattern[i]\<close> is \<^verbatim>\<open>undefined\<close> unless \<open>i\<close> is an index of the string.\<close>

definition pattern_at :: "string \<Rightarrow> cursor \<Rightarrow> char option" where
  "pattern_at pattern i =
     (case i of Num n \<Rightarrow> (if n < length pattern then Some (pattern ! n) else None)
              | _ \<Rightarrow> None)"

text \<open>\<^verbatim>\<open>(i + 1) % pattern.length\<close>\<close>

definition next_cursor :: "string \<Rightarrow> cursor \<Rightarrow> cursor" where
  "next_cursor pattern i =
     (case i of Num n \<Rightarrow> (if length pattern = 0 then NaN else Num ((n + 1) mod length pattern))
              | _ \<Rightarrow> NaN)"

text \<open>The body of the \<^verbatim>\<open>forEach\<close> callback of \<^verbatim>\<open>update\<close>, on one class list.\<close>

definition flags :: "string \<Rightarrow> string \<Rightarrow> string \<Rightarrow> cursor \<Rightarrow> string list \<Rightarrow> string list" where
  "flags on off pattern i cl =
     (if pattern_at pattern i = Some CHR ''-''
      then classList_add on (classList_remove off cl)
      else classList_add off (classList_remove on cl))"

definition paint ::
  "string \<Rightarrow> string \<Rightarrow> string \<Rightarrow> cursor \<Rightarrow> elem \<Rightarrow> (elem \<Rightarrow> string list) \<Rightarrow> (elem \<Rightarrow> string list)"
where
  "paint on off pattern i element cls = cls(element := flags on off pattern i (cls element))"

definition blinker_update :: "ref \<Rightarrow> world \<Rightarrow> world" where
  "blinker_update r w =
     (let b = blinkers w ! r in
      w\<lparr>classes := fold (paint (b_on b) (b_off b) (b_pattern b) (b_i b)) (b_targets b) (classes w),
        blinkers := (blinkers w)[r := b\<lparr>b_i := next_cursor (b_pattern b) (b_i b)\<rparr>]\<rparr>)"

definition blinker_start :: "ref \<Rightarrow> world \<Rightarrow> world" where
  "blinker_start r w =
     (case b_timer (blinkers w ! r) of
        None \<Rightarrow>
          (let (t, w1) = setInterval (BlinkerTick r) (b_time (blinkers w ! r)) w in
           w1\<lparr>blinkers := (blinkers w1)[r := (blinkers w1 ! r)\<lparr>b_timer := Some t\<rparr>]\<rparr>)
      | Some t \<Rightarrow> w)"

definition blinker_stop :: "ref \<Rightarrow> world \<Rightarrow> world" where
  "blinker_stop r w =
     (let w1 = (case b_timer (blinkers w ! r) of
                  Some t \<Rightarrow>
                    (let w0 = clearInterval t w in
                     w0\<lparr>blinkers := (blinkers w0)[r := (blinkers w0 ! r)\<lparr>b_timer := None\<rparr>]\<rparr>)
                | None \<Rightarrow> w);
          w2 = w1\<lparr>blinkers := (blinkers w1)[r := (blinkers w1 ! r)\<lparr>b_i := Num 0\<rparr>]\<rparr>
      in blinker_update r w2)"

text \<open>The factory: the variables are declared, then \<^verbatim>\<open>stop()\<close> runs once.\<close>

definition BlinkerSignal :: "string \<Rightarrow> string \<Rightarrow> int \<Rightarrow> string \<Rightarrow> world \<Rightarrow> ref \<times> world" where
  "BlinkerSignal on off time pattern w =
     (let r = length (blinkers w);
          cell = \<lparr> b_on = on, b_off = off, b_time = time, b_pattern = pattern,
                   b_targets = [], b_timer = None, b_i = Undefined \<rparr>
      in (r, blinker_stop r (w\<lparr>blinkers := blinkers w @ [cell]\<rparr>)))"

subsection \<open>\<^verbatim>\<open>AudioSignal\<close>\<close>

definition audio_add :: "ref \<Rightarrow> elem \<Rightarrow> world \<Rightarrow> world" where
  "audio_add r element w =
     w\<lparr>audios := (audios w)[r := (audios w ! r)\<lparr>a_targets := a_targets (audios w ! r) @ [element]\<rparr>]\<rparr>"

definition audio_empty :: "ref \<Rightarrow> world \<Rightarrow> world" where
  "audio_empty r w =
     w\<lparr>audios := (audios w)[r := (audios w ! r)\<lparr>a_targets := []\<rparr>]\<rparr>"

text \<open>
  \<^verbatim>\<open>audio.play()\<close>: the request is counted; the promise it returns is fulfilled
  (\<open>True\<close>) once the element plays, rejected (\<open>False\<close>) when playback fails.
\<close>

definition play :: "media \<Rightarrow> bool \<times> media" where
  "play m =
     (if m_fails m then (False, m\<lparr>m_requests := Suc (m_requests m)\<rparr>)
      else (True, m\<lparr>m_requests := Suc (m_requests m), m_paused := False\<rparr>))"

text \<open>
  The statement \<^verbatim>\<open>audio.play();\<close> as both call sites write it: the promise is
  dropped on the spot, so a rejection stays unhandled.
\<close>

definition audio_play :: "ref \<Rightarrow> world \<Rightarrow> world" where
  "audio_play r w =
     (let (fulfilled, m) = play (a_audio (audios w ! r));
          m' = (if fulfilled then m else m\<lparr>m_unhandled := Suc (m_unhandled m)\<rparr>)
      in w\<lparr>audios := (audios w)[r := (audios w ! r)\<lparr>a_audio := m'\<rparr>]\<rparr>)"

definition audio_start :: "ref \<Rightarrow> world \<Rightarrow> world" where
  "audio_start r w =
     (case a_timer (audios w ! r) of
        None \<Rightarrow>
          (let w0 = audio_play r w;
               (t, w1) = setInterval (AudioTick r) (a_time (audios w0 ! r)) w0
           in w1\<lparr>audios := (audios w1)[r := (audios w1 ! r)\<lparr>a_timer := Some t\<rparr>]\<rparr>)
      | Some t \<Rightarrow> w)"

definition audio_stop :: "ref \<Rightarrow> world \<Rightarrow> world" where
  "audio_stop r w =
     (case a_timer (audios w ! r) of
        Some t \<Rightarrow>
          (let w0 = clearInterval t w in
           w0\<lparr>audios := (audios w0)[r := (audios w0 ! r)\<lparr>a_timer := None\<rparr>]\<rparr>)
      | None \<Rightarrow> w)"

definition AudioSignal :: "string \<Rightarrow> int \<Rightarrow> world \<Rightarrow> ref \<times> world" where
  "AudioSignal uri time w =
     (let r = length (audios w);
          cell = \<lparr> a_time = time, a_targets = [], a_timer = None,
                   a_audio = \<lparr> m_src = uri, m_paused = True, m_fails = False,
                                m_requests = 0, m_unhandled = 0 \<rparr> \<rparr>
      in (r, w\<lparr>audios := audios w @ [cell]\<rparr>))"

subsection \<open>The bundles\<close>

fun methods :: "sigref \<Rightarrow> (string, world) signal" where
  "methods (SBlinker r) =
     \<lparr> start = (\<lambda>w. Returned (blinker_start r w)),
       stop = (\<lambda>w. Returned (blinker_stop r w)),
       add = (\<lambda>element w. Returned (blinker_add r element w)),
       empty = (\<lambda>w. Returned (blinker_empty r w)) \<rparr>"
| "methods (SAudio r) =
     \<lparr> start = (\<lambda>w. Returned (audio_start r w)),
       stop = (\<lambda>w. Returned (audio_stop r w)),
       add = (\<lambda>element w. Returned (audio_add r element w)),
       empty = (\<lambda>w. Returned (audio_empty r w)) \<rparr>"
| "methods (SCompose k ss) = ComposeSignal (map methods ss)"

definition compose :: "sigref list \<Rightarrow> world \<Rightarrow> sigref \<times> world" where
  "compose ss w = (SCompose (composed w) ss, w\<lparr>composed := Suc (composed w)\<rparr>)"

subsection \<open>What the browser calls\<close>

text \<open>
  An exception that leaves a timer callback, an event listener or an observer callback
  is reported and the browser goes on; the store keeps what was done.
\<close>

fun reported :: "('e, 'w) outcome \<Rightarrow> 'w" where
  "reported (Returned w) = w"
| "reported (Threw e w) = w"

fun run_job :: "job \<Rightarrow> world \<Rightarrow> world" where
  "run_job (BlinkerTick r) w = blinker_update r w"
| "run_job (AudioTick r) w = audio_play r w"

text \<open>Timer \<open>t\<close> fires, if it is still scheduled.\<close>

definition tick :: "timer \<Rightarrow> world \<Rightarrow> world" where
  "tick t w =
     (case find (\<lambda>(t', j, time). t' = t) (intervals w) of
        None \<Rightarrow> w
      | Some (t', j, time) \<Rightarrow> run_job j w)"

text \<open>A click on an element runs the listeners registered on it.\<close>

definition click :: "elem \<Rightarrow> world \<Rightarrow> world" where
  "click e w = fold (\<lambda>s w'. reported (stop (methods s) w')) (listeners w e) w"

subsection \<open>\<^verbatim>\<open>Hawkeye\<close>\<close>

definition Hawkeye :: "elem \<Rightarrow> elem list \<Rightarrow> sigref \<Rightarrow> world \<Rightarrow> nat \<times> world" where
  "Hawkeye source targets signal w =
     (length (watchers w),
      w\<lparr>watchers := watchers w @
          [\<lparr> h_source = source, h_targets = targets, h_signal = signal,
             h_observed = [], h_filter = ignore_too_early_call (clock w) \<rparr>]\<rparr>)"

definition observe :: "nat \<Rightarrow> elem \<Rightarrow> world \<Rightarrow> world" where
  "observe h node w =
     (let k = watchers w ! h in
      if node \<in> set (h_observed k) then w
      else w\<lparr>watchers := (watchers w)[h := k\<lparr>h_observed := h_observed k @ [node]\<rparr>]\<rparr>)"

definition observer_disconnect :: "nat \<Rightarrow> world \<Rightarrow> world" where
  "observer_disconnect h w =
     w\<lparr>watchers := (watchers w)[h := (watchers w ! h)\<lparr>h_observed := []\<rparr>]\<rparr>"

definition connect :: "nat \<Rightarrow> world \<Rightarrow> (string, world) outcome" where
  "connect h w =
     (let k = watchers w ! h;
          w1 = observe h (h_source k) w;
          w2 = addEventListener (h_source k) (h_signal k) w1
      in forEach (h_targets k)
           (\<lambda>elem w'. case add (methods (h_signal k)) elem w' of
                         Returned w'' \<Rightarrow> Returned (addEventListener elem (h_signal k) w'')
                       | Threw e w'' \<Rightarrow> Threw e w'')
           w2)"

definition disconnect :: "nat \<Rightarrow> world \<Rightarrow> (string, world) outcome" where
  "disconnect h w =
     (let k = watchers w ! h;
          w1 = observer_disconnect h w;
          w2 = removeEventListener (h_source k) (h_signal k) w1;
          w3 = fold (\<lambda>elem. removeEventListener elem (h_signal k)) (h_targets k) w2
      in case stop (methods (h_signal k)) w3 of
           Returned w4 \<Rightarrow> empty (methods (h_signal k)) w4
         | Threw e w4 \<Rightarrow> Threw e w4)"

text \<open>
  The observer's callback, \<^verbatim>\<open>ignore_too_early_call(signal.start, 3000)\<close>: the
  filter's variables are the watcher's, the clock is the browser's.
\<close>

definition on_change :: "nat \<Rightarrow> world \<Rightarrow> (string, world) outcome" where
  "on_change h w =
     (let k = watchers w ! h;
          (d, out) = filtered (start (methods (h_signal k))) 3000 (clock w) (h_filter k) w;
          keep = (\<lambda>w'. w'\<lparr>watchers := (watchers w')[h := (watchers w' ! h)\<lparr>h_filter := d\<rparr>]\<rparr>)
      in case out of Returned w' \<Rightarrow> Returned (keep w') | Threw e w' \<Rightarrow> Threw e (keep w'))"

text \<open>
  The children of \<open>node\<close> changed: the callback of every observer that observes
  \<open>node\<close> is run (\<open>delivered\<close> is the part of one watcher).
\<close>

definition delivered :: "elem \<Rightarrow> nat \<Rightarrow> world \<Rightarrow> world" where
  "delivered node h w =
     (if node \<in> set (h_observed (watchers w ! h)) then reported (on_change h w) else w)"

definition children_changed :: "elem \<Rightarrow> world \<Rightarrow> world" where
  "children_changed node w = fold (delivered node) [0 ..< length (watchers w)] w"

subsection \<open>\<^verbatim>\<open>nagios_hawk\<close>\<close>

record hawk =
  k_observer :: "nat option"
  k_sos :: ref
  k_alarm :: ref
  k_signal :: sigref

definition inject_style :: "string \<Rightarrow> world \<Rightarrow> world" where
  "inject_style style_str w =
     w\<lparr>frame_doc := (frame_doc w)\<lparr>d_styles := d_styles (frame_doc w) @ [style_str]\<rparr>\<rparr>"

definition endsWith :: "string \<Rightarrow> string \<Rightarrow> bool" where
  "endsWith s suffix =
     (length suffix \<le> length s \<and> drop (length s - length suffix) s = suffix)"

definition birdseye_path :: string where
  "birdseye_path = ''/components/birdseye/birdseye.php''"

definition is_birdseye :: "world \<Rightarrow> bool" where
  "is_birdseye w = endsWith (d_url (frame_doc w)) birdseye_path"

text \<open>The literals of \<^verbatim>\<open>nagios_hawk\<close>: the blink pattern, the bell and the style sheet.\<close>

definition sos_pattern :: string where
  "sos_pattern = ''  - - -   ---   ---   ---   - - -  ''"

definition bell :: string where
  "bell = ''https://raw.githubusercontent.com/geusebi/hawkeye/master/bell.mp3''"

definition sos_style :: string where
  "sos_style = ''.sos-on { background-color: gray; } .sos-off { } ''"

definition nagios_hawk :: "world \<Rightarrow> hawk \<times> world" where
  "nagios_hawk w =
     (let (sos, w1) = BlinkerSignal ''sos-on'' ''sos-off'' 250
                        sos_pattern w;
          (alarm, w2) = AudioSignal
                        bell
                        30000 w1;
          (signal, w3) = compose [SBlinker sos, SAudio alarm] w2
      in (\<lparr> k_observer = None, k_sos = sos, k_alarm = alarm, k_signal = signal \<rparr>, w3))"

definition attack :: "hawk \<Rightarrow> world \<Rightarrow> hawk \<times> (string, world) outcome" where
  "attack k w =
     (let w1 = inject_style sos_style w;
          source = d_be_hosts (frame_doc w1);
          targets = [d_be_dash (frame_doc w1)];
          (h, w2) = Hawkeye source targets (k_signal k) w1
      in (k\<lparr>k_observer := Some h\<rparr>, connect h w2))"

definition rest :: "hawk \<Rightarrow> world \<Rightarrow> hawk \<times> (string, world) outcome" where
  "rest k w =
     (case k_observer k of
        Some h \<Rightarrow> (k, disconnect h w)
      | None \<Rightarrow> (k, Returned w))"

definition wake :: "hawk \<Rightarrow> world \<Rightarrow> hawk \<times> (string, world) outcome" where
  "wake k w = (if is_birdseye w then attack k w else rest k w)"

text \<open>A page with nothing on it yet, showing the dashboard \<open>doc\<close> in its frame.\<close>

definition birdseye :: document where
  "birdseye = \<lparr> d_url = ''https://nagios.example/nagiosxi/components/birdseye/birdseye.php'',
                d_be_hosts = 1, d_be_dash = 2, d_styles = [] \<rparr>"

definition blank :: world where
  "blank = \<lparr> clock = 0, blinkers = [], audios = [], composed = 0, watchers = [],
             intervals = [], next_timer = 1, classes = (\<lambda>e. []), listeners = (\<lambda>e. []),
             frame_doc = birdseye \<rparr>"

subsection \<open>Notions the properties are stated with\<close>

text \<open>What a target shows at pattern position 0: a dash puts the \<open>on\<close> class on the
  element and takes the \<open>off\<close> class away, any other character the reverse.\<close>

definition shows_first :: "blinker \<Rightarrow> string list \<Rightarrow> bool" where
  "shows_first b cl =
     (if b_pattern b ! 0 = CHR ''-''
      then b_on b \<in> set cl \<and> (b_off b \<noteq> b_on b \<longrightarrow> b_off b \<notin> set cl)
      else b_off b \<in> set cl \<and> (b_on b \<noteq> b_off b \<longrightarrow> b_on b \<notin> set cl))"

text \<open>The schedules of the browser's timer table that run a given job.\<close>

definition scheduled :: "job \<Rightarrow> world \<Rightarrow> (timer \<times> job \<times> int) list" where
  "scheduled j w = filter (\<lambda>(t, j', time). j' = j) (intervals w)"

text \<open>
  The timer table and the \<^verbatim>\<open>timer\<close> variables agree: timer identifiers are not
  reused, every schedule is the one its signal's variable holds, and every variable
  that holds an identifier holds that of a live schedule.
\<close>

fun owner_ok :: "world \<Rightarrow> timer \<times> job \<times> int \<Rightarrow> bool" where
  "owner_ok w (t, BlinkerTick r, time) =
     (r < length (blinkers w) \<and> b_timer (blinkers w ! r) = Some t \<and> time = b_time (blinkers w ! r))"
| "owner_ok w (t, AudioTick r, time) =
     (r < length (audios w) \<and> a_timer (audios w ! r) = Some t \<and> time = a_time (audios w ! r))"

definition consistent :: "world \<Rightarrow> bool" where
  "consistent w \<longleftrightarrow>
     distinct (map fst (intervals w)) \<and>
     (\<forall>x \<in> set (intervals w). fst x < next_timer w \<and> owner_ok w x) \<and>
     (\<forall>r \<in> {..< length (blinkers w)}.
        case b_timer (blinkers w ! r) of None \<Rightarrow> True
        | Some t \<Rightarrow> (t, BlinkerTick r, b_time (blinkers w ! r)) \<in> set (intervals w)) \<and>
     (\<forall>r \<in> {..< length (audios w)}.
        case a_timer (audios w ! r) of None \<Rightarrow> True
        | Some t \<Rightarrow> (t, AudioTick r, a_time (audios w ! r)) \<in> set (intervals w))"

text \<open>
  The jobs of the cells a bundle was closed over, in the order a composed call reaches
  them, and the function of a cell that an operation of the interface names.
\<close>

fun jobs :: "sigref \<Rightarrow> job list" where
  "jobs (SBlinker r) = [BlinkerTick r]"
| "jobs (SAudio r) = [AudioTick r]"
| "jobs (SCompose k ss) = concat (map jobs ss)"

fun cell_op :: "opname \<Rightarrow> job \<Rightarrow> world \<Rightarrow> world" where
  "cell_op OpStart (BlinkerTick r) = blinker_start r"
| "cell_op OpStop (BlinkerTick r) = blinker_stop r"
| "cell_op (OpAdd element) (BlinkerTick r) = blinker_add r element"
| "cell_op OpEmpty (BlinkerTick r) = blinker_empty r"
| "cell_op OpStart (AudioTick r) = audio_start r"
| "cell_op OpStop (AudioTick r) = audio_stop r"
| "cell_op (OpAdd element) (AudioTick r) = audio_add r element"
| "cell_op OpEmpty (AudioTick r) = audio_empty r"

fun cell_exists :: "world \<Rightarrow> job \<Rightarrow> bool" where
  "cell_exists w (BlinkerTick r) = (r < length (blinkers w))"
| "cell_exists w (AudioTick r) = (r < length (audios w))"



text \<open>The browser finds that the resource of alarm \<open>r\<close> can, or cannot, be played.\<close>

definition playback_fails :: "ref \<Rightarrow> bool \<Rightarrow> world \<Rightarrow> world" where
  "playback_fails r f w =
     w\<lparr>audios := (audios w)[r := (audios w ! r)\<lparr>a_audio := (a_audio (audios w ! r))\<lparr>m_fails := f\<rparr>\<rparr>]\<rparr>"

text \<open>A blinker over the pattern \<^verbatim>\<open>" -"\<close> with one target, element 7.\<close>

definition demo :: world where
  "demo = blinker_add 0 7 (snd (BlinkerSignal ''red'' ''green'' 1000 '' -'' blank))"

text \<open>The page after \<^verbatim>\<open>nagios_hawk\<close> with the alarm started, and the same page once
  the browser can no longer play the bell.\<close>

definition ringing :: world where
  "ringing = audio_start 0 (snd (nagios_hawk blank))"

definition muted :: world where
  "muted = playback_fails 0 True ringing"

text \<open>
  The page after \<^verbatim>\<open>nagios_hawk\<close> and one \<^verbatim>\<open>attack()\<close>, and the same page at
  clock reading 5000 after two change notifications on the source (element 1): the
  first is dropped, the second starts the blinker and the alarm.
\<close>

definition watching :: "hawk \<times> world" where
  "watching = (case nagios_hawk blank of (k, w) \<Rightarrow>
                 (case attack k w of (k', out) \<Rightarrow> (k', reported out)))"

definition alarmed :: world where
  "alarmed = children_changed 1 (children_changed 1 ((snd watching)\<lparr>clock := 5000\<rparr>))"

subsection \<open>What can happen on the page\<close>

text \<open>
  The frame loads a document (\<^verbatim>\<open>wake\<close> is its \<^verbatim>\<open>load\<close> listener), a timer fires,
  an element is clicked, the children of a node change, the clock moves, the bell
  becomes playable or not, or somebody calls one of the three functions
  \<^verbatim>\<open>nagios_hawk\<close> returns.
\<close>

datatype event =
    Load document | Tick timer | Click elem | Changed elem | Clock int | Playback ref bool
  | Attack | Rest | Wake

fun step :: "event \<Rightarrow> hawk \<times> world \<Rightarrow> hawk \<times> world" where
  "step (Load d) (k, w) = (case wake k (w\<lparr>frame_doc := d\<rparr>) of (k', out) \<Rightarrow> (k', reported out))"
| "step (Tick t) (k, w) = (k, tick t w)"
| "step (Click e) (k, w) = (k, click e w)"
| "step (Changed node) (k, w) = (k, children_changed node w)"
| "step (Clock now) (k, w) = (k, w\<lparr>clock := now\<rparr>)"
| "step (Playback r f) (k, w) = (k, playback_fails r f w)"
| "step Attack (k, w) = (case attack k w of (k', out) \<Rightarrow> (k', reported out))"
| "step Rest (k, w) = (case rest k w of (k', out) \<Rightarrow> (k', reported out))"
| "step Wake (k, w) = (case wake k w of (k', out) \<Rightarrow> (k', reported out))"


text \<open>
  The page after \<^verbatim>\<open>nagios_hawk\<close>, two calls of \<^verbatim>\<open>attack()\<close> with no \<^verbatim>\<open>rest()\<close>
  between them, and two change notifications on the source at clock reading 5000: two
  watchers observe element 1, \<^verbatim>\<open>observer\<close> names the second, and the blinker and the
  alarm are running.
\<close>

definition crowded :: "hawk \<times> world" where
  "crowded = fold step [Attack, Attack, Clock 5000, Changed 1, Changed 1] (nagios_hawk blank)"

text \<open>
  What every store the page reaches satisfies: the timer table and the timer variables
  agree, the cells of the controller's signal exist, every watcher and every click
  listener is around that signal, and \<^verbatim>\<open>observer\<close> names a watcher of the store.
\<close>

definition sound :: "hawk \<Rightarrow> world \<Rightarrow> bool" where
  "sound k w \<longleftrightarrow>
     consistent w
     \<and> (\<forall>j \<in> set (jobs (k_signal k)). cell_exists w j)
     \<and> (\<forall>x \<in> set (watchers w). h_signal x = k_signal k)
     \<and> (\<forall>e. \<forall>s \<in> set (listeners w e). s = k_signal k)
     \<and> (\<forall>h. k_observer k = Some h \<longrightarrow> h < length (watchers w))"


section \<open>Properties\<close>

subsection \<open>The startup filter\<close>

lemma filtered_first:
  "first d \<Longrightarrow> early d \<Longrightarrow>
   filtered fnct delta now d w = (d\<lparr>first := False\<rparr>, Returned w)"
  by (simp add: filtered_def Let_def)

lemma filtered_later:
  "\<not> first d \<Longrightarrow> early d \<Longrightarrow>
   filtered note_call delta now d p =
     (d, Returned (p\<lparr>noted := noted p @ [reading p]\<rparr>))"
  by (simp add: filtered_def Let_def note_call_def)

lemma notified_later:
  "\<not> first d \<Longrightarrow> early d \<Longrightarrow>
   notified delta ts d p = (d, Returned \<lparr> reading = last (reading p # ts), noted = noted p @ ts \<rparr>)"
proof (induction ts arbitrary: p)
  case Nil
  then show ?case by simp
next
  case (Cons t ts)
  from Cons.prems have step:
    "filtered note_call delta t d (p\<lparr>reading := t\<rparr>) = (d, Returned \<lparr> reading = t, noted = noted p @ [t] \<rparr>)"
    by (simp add: filtered_later)
  show ?case
    using Cons.IH [OF Cons.prems, of "\<lparr> reading = t, noted = noted p @ [t] \<rparr>"]
    by (simp add: step)
qed

text \<open>
  C1. The claim: a first invocation that arrives after the window has elapsed calls the
  wrapped function. The code: \<^verbatim>\<open>early\<close> starts as \<^verbatim>\<open>true\<close> and is only ever
  assigned \<^verbatim>\<open>true\<close>, so the test \<^verbatim>\<open>!early || !first\<close> is \<^verbatim>\<open>!first\<close>. With the
  filter made at clock reading 0 and its first invocation at 5000 (the window of 3000
  is over), the wrapped function is not called.
\<close>

theorem first_call_after_window_is_dropped:
  "notified 3000 [5000] (ignore_too_early_call 0) fresh_probe =
     (\<lparr> first = False, early = True, mark = 0 \<rparr>, Returned \<lparr> reading = 5000, noted = [] \<rparr>)"
  by (simp add: filtered_def ignore_too_early_call_def fresh_probe_def Let_def)

text \<open>
  C2. With the window \<open>delta = 3000\<close>: a first invocation inside the window
  (\<open>t - mark \<le> 3000\<close>) does not call the wrapped function, and every invocation after
  the first calls it, whatever the clock says: the calls noted are exactly the readings
  of the second and later invocations, in order.
\<close>

theorem first_call_in_window_dropped_later_calls_pass:
  assumes "t - m \<le> 3000"
  shows "snd (notified 3000 [t] (ignore_too_early_call m) fresh_probe)
           = Returned \<lparr> reading = t, noted = [] \<rparr>
       \<and> snd (notified 3000 (t # ts) (ignore_too_early_call m) fresh_probe)
           = Returned \<lparr> reading = last (t # ts), noted = ts \<rparr>"
proof -
  have one: "filtered note_call 3000 t (ignore_too_early_call m) (fresh_probe\<lparr>reading := t\<rparr>)
      = (\<lparr> first = False, early = True, mark = m \<rparr>, Returned \<lparr> reading = t, noted = [] \<rparr>)"
    using assms by (simp add: filtered_def ignore_too_early_call_def fresh_probe_def Let_def)
  have a: "snd (notified 3000 [t] (ignore_too_early_call m) fresh_probe)
           = Returned \<lparr> reading = t, noted = [] \<rparr>"
    by (simp add: one)
  have b: "snd (notified 3000 (t # ts) (ignore_too_early_call m) fresh_probe)
           = Returned \<lparr> reading = last (t # ts), noted = ts \<rparr>"
    using notified_later [where d = "\<lparr> first = False, early = True, mark = m \<rparr>"
        and delta = 3000 and ts = ts and p = "\<lparr> reading = t, noted = [] \<rparr>"]
    by (simp add: one)
  from a b show ?thesis by (rule conjI)
qed

theorem first_call_in_window_dropped_later_calls_pass_witness:
  "(1000::int) - 0 \<le> 3000
   \<and> snd (notified 3000 [1000] (ignore_too_early_call 0) fresh_probe)
       = Returned \<lparr> reading = 1000, noted = [] \<rparr>
   \<and> snd (notified 3000 [1000, 1500] (ignore_too_early_call 0) fresh_probe)
       = Returned \<lparr> reading = 1500, noted = [1500] \<rparr>"
  using first_call_in_window_dropped_later_calls_pass [where t = 1000 and m = 0 and ts = "[1500]"]
  by simp

subsection \<open>\<^verbatim>\<open>ComposeSignal\<close>\<close>

lemma perform_start: "perform OpStart = start"
  by (rule ext) simp

lemma perform_stop: "perform OpStop = stop"
  by (rule ext) simp

lemma perform_add: "perform (OpAdd element) = (\<lambda>s. add s element)"
  by (rule ext) simp

lemma perform_empty: "perform OpEmpty = empty"
  by (rule ext) simp

lemma perform_ComposeSignal:
  "perform nm (ComposeSignal ss) = forEach ss (perform nm)"
  by (cases nm) (simp_all add: ComposeSignal_def perform_start perform_stop perform_add perform_empty)

lemma perform_traced:
  "perform nm (traced k s) = logged k nm (perform nm s)"
  by (cases nm) (simp_all add: traced_def)

lemma upt_head: "n < m \<Longrightarrow> [n ..< m] = n # [Suc n ..< m]"
  by (rule upt_conv_Cons)

lemma upt_head_len: "[n ..< n + length (s # ss)] = n # [Suc n ..< Suc n + length ss]"
  using upt_head [of n "Suc n + length ss"] by simp

lemma forEach_numbered:
  "(case forEach (numbered n ss) (perform nm) (log, w) of
      Returned (log', w') \<Rightarrow> log' = log @ map (\<lambda>k. (k, nm, True)) [n ..< n + length ss]
    | Threw e (log', w') \<Rightarrow>
        (\<exists>j. n \<le> j \<and> j < n + length ss
           \<and> log' = log @ map (\<lambda>k. (k, nm, True)) [n ..< j] @ [(j, nm, False)]))"
proof (induction ss arbitrary: n log w)
  case Nil
  then show ?case by (simp add: numbered_def)
next
  case (Cons s ss)
  let ?rest = "forEach (numbered (Suc n) ss) (perform nm)"
  have unfold: "numbered n (s # ss) = traced n s # numbered (Suc n) ss"
    by (simp add: numbered_def)
  show ?case
  proof (cases "perform nm s w")
    case (Returned w1)
    have *: "forEach (numbered n (s # ss)) (perform nm) (log, w)
        = ?rest (log @ [(n, nm, True)], w1)"
      by (simp add: unfold perform_traced logged_def Returned)
    note IH = Cons.IH [where n = "Suc n" and log = "log @ [(n, nm, True)]" and w = w1]
    show ?thesis
    proof (cases "?rest (log @ [(n, nm, True)], w1)")
      case inner: (Returned lw)
      obtain log' w' where lw: "lw = (log', w')" by (cases lw)
      from IH have "log' = (log @ [(n, nm, True)]) @ map (\<lambda>k. (k, nm, True)) [Suc n ..< Suc n + length ss]"
        by (simp add: inner lw)
      then have "log' = log @ map (\<lambda>k. (k, nm, True)) [n ..< n + length (s # ss)]"
        by (simp only: upt_head_len list.map append_assoc append.simps)
      then show ?thesis
        unfolding * inner lw by (simp only: outcome.case prod.case)
    next
      case inner: (Threw e lw)
      obtain log' w' where lw: "lw = (log', w')" by (cases lw)
      from IH obtain j where j: "Suc n \<le> j" "j < Suc n + length ss"
        "log' = (log @ [(n, nm, True)]) @ map (\<lambda>k. (k, nm, True)) [Suc n ..< j] @ [(j, nm, False)]"
        by (auto simp add: inner lw)
      from j(1) have "[n ..< j] = n # [Suc n ..< j]"
        by (simp add: upt_head)
      with j have "n \<le> j \<and> j < n + length (s # ss)
           \<and> log' = log @ map (\<lambda>k. (k, nm, True)) [n ..< j] @ [(j, nm, False)]"
        by simp
      then have "\<exists>j. n \<le> j \<and> j < n + length (s # ss)
           \<and> log' = log @ map (\<lambda>k. (k, nm, True)) [n ..< j] @ [(j, nm, False)]" ..
      then show ?thesis
        by (simp only: * inner lw outcome.case prod.case)
    qed
  next
    case (Threw e w1)
    have *: "forEach (numbered n (s # ss)) (perform nm) (log, w)
        = Threw e (log @ [(n, nm, False)], w1)"
      by (simp add: unfold perform_traced logged_def Threw)
    have "n \<le> n \<and> n < n + length (s # ss)
           \<and> log @ [(n, nm, False)] = log @ map (\<lambda>k. (k, nm, True)) [n ..< n] @ [(n, nm, False)]"
      by simp
    then have "\<exists>j. n \<le> j \<and> j < n + length (s # ss)
           \<and> log @ [(n, nm, False)] = log @ map (\<lambda>k. (k, nm, True)) [n ..< j] @ [(j, nm, False)]" ..
    then show ?thesis
      by (simp only: * outcome.case prod.case)
  qed
qed

text \<open>
  C7. For every list of sub-signals and each of the four operations, the composed
  operation calls the same operation of the sub-signals in list order. When all calls
  return, every sub-signal was called once, in order; when the call of sub-signal \<open>j\<close>
  throws, the composed call throws, and the calls made are those of the sub-signals
  \<open>0 .. j\<close>: none after \<open>j\<close> is called.
\<close>

theorem ComposeSignal_calls_in_order_until_failure:
  "(case perform nm (ComposeSignal (numbered 0 ss)) ([], w) of
      Returned (log, w') \<Rightarrow> log = map (\<lambda>k. (k, nm, True)) [0 ..< length ss]
    | Threw e (log, w') \<Rightarrow>
        (\<exists>j. j < length ss \<and> log = map (\<lambda>k. (k, nm, True)) [0 ..< j] @ [(j, nm, False)]))"
  using forEach_numbered [where n = 0 and ss = ss and nm = nm and log = "[]" and w = w]
  by (simp add: perform_ComposeSignal split: outcome.splits prod.splits)

theorem ComposeSignal_calls_in_order_until_failure_witness:
  "perform OpStart (ComposeSignal (numbered 0 [steady, steady])) ([], 0)
     = Returned ([(0, OpStart, True), (1, OpStart, True)], 2)
   \<and> perform OpStop (ComposeSignal (numbered 0 [steady, broken, steady])) ([], 0)
     = Threw ''stop'' ([(0, OpStop, True), (1, OpStop, False)], 1)"
  using ComposeSignal_calls_in_order_until_failure
      [where nm = OpStart and ss = "[steady, steady]" and w = 0]
    ComposeSignal_calls_in_order_until_failure
      [where nm = OpStop and ss = "[steady, broken, steady]" and w = 0]
  by (simp add: ComposeSignal_def numbered_def traced_def logged_def steady_def broken_def)

subsection \<open>\<^verbatim>\<open>BlinkerSignal\<close>: what \<^verbatim>\<open>stop\<close> leaves\<close>

lemma swap_idem:
  "classList_add c (classList_remove c' (classList_add c (classList_remove c' cl)))
     = classList_add c (classList_remove c' cl)"
  by (auto simp add: classList_add_def classList_remove_def filter_id_conv)

lemma flags_idem: "flags on off p i (flags on off p i cl) = flags on off p i cl"
  by (simp add: flags_def swap_idem)

lemma fold_paint:
  "fold (paint on off p i) ts cls e = (if e \<in> set ts then flags on off p i (cls e) else cls e)"
proof (induction ts arbitrary: cls)
  case Nil
  then show ?case by simp
next
  case (Cons t ts)
  then show ?case by (simp add: paint_def flags_idem)
qed

lemma fold_paint_twice:
  "fold (paint on off p i) ts (fold (paint on off p i) ts cls) = fold (paint on off p i) ts cls"
  by (rule ext) (simp add: fold_paint flags_idem)

lemma timer_none_upd:
  "b_timer b = None \<Longrightarrow> b\<lparr>b_timer := None, b_i := c\<rparr> = b\<lparr>b_i := c\<rparr>"
  by (cases b) simp

lemma blinker_stop_eq:
  "r < length (blinkers w) \<Longrightarrow>
   blinker_stop r w =
     w\<lparr>intervals := (case b_timer (blinkers w ! r) of None \<Rightarrow> intervals w
          | Some t \<Rightarrow> filter (\<lambda>(t', j, time). t' \<noteq> t) (intervals w)),
       classes := fold (paint (b_on (blinkers w ! r)) (b_off (blinkers w ! r))
                          (b_pattern (blinkers w ! r)) (Num 0))
                    (b_targets (blinkers w ! r)) (classes w),
       blinkers := (blinkers w)[r := (blinkers w ! r)\<lparr>b_timer := None,
        b_i := next_cursor (b_pattern (blinkers w ! r)) (Num 0)\<rparr>]\<rparr>"
  by (simp add: blinker_stop_def blinker_update_def clearInterval_def Let_def timer_none_upd
      split: option.splits)

lemma blinker_stop_twice:
  assumes "r < length (blinkers w)"
  shows "blinker_stop r (blinker_stop r w) = blinker_stop r w"
proof -
  let ?w = "blinker_stop r w"
  have len: "r < length (blinkers ?w)" using assms by (simp add: blinker_stop_eq)
  show ?thesis
    apply (subst blinker_stop_eq [OF len])
    apply (simp add: blinker_stop_eq [OF assms] fold_paint_twice assms)
    done
qed

lemma next_cursor_0: "p \<noteq> [] \<Longrightarrow> next_cursor p (Num 0) = Num (1 mod length p)"
  by (simp add: next_cursor_def)

lemma blinker_update_frame:
  "length (blinkers (blinker_update r w)) = length (blinkers w)"
  "r < length (blinkers w) \<Longrightarrow> b_pattern (blinkers (blinker_update r w) ! r) = b_pattern (blinkers w ! r)"
  by (simp_all add: blinker_update_def Let_def)

lemma updates_frame:
  "length (blinkers ((blinker_update r ^^ n) w)) = length (blinkers w)
   \<and> (r < length (blinkers w) \<longrightarrow>
        b_pattern (blinkers ((blinker_update r ^^ n) w) ! r) = b_pattern (blinkers w ! r))"
  by (induction n) (simp_all add: blinker_update_frame)


lemma flags_shows:
  "b_pattern b \<noteq> [] \<Longrightarrow> shows_first b (flags (b_on b) (b_off b) (b_pattern b) (Num 0) cl)"
  by (auto simp add: shows_first_def flags_def pattern_at_def classList_add_def classList_remove_def)

lemma sos_cursor: "next_cursor sos_pattern (Num 0) = Num 1"
  by (simp add: next_cursor_def sos_pattern_def)

lemma demo_eq:
  "demo = blank\<lparr>blinkers := [\<lparr> b_on = ''red'', b_off = ''green'', b_time = 1000, b_pattern = '' -'',
                   b_targets = [7], b_timer = None, b_i = Num 1 \<rparr>]\<rparr>"
  by (simp add: demo_def BlinkerSignal_def Let_def blinker_stop_eq next_cursor_def blinker_add_def blank_def)

text \<open>
  C5. For a blinker with a nonempty pattern, after any number \<open>n\<close> of \<^verbatim>\<open>update()\<close>
  ticks, \<^verbatim>\<open>stop()\<close> leaves every target of the collection showing the flags of pattern
  position 0, and a second \<^verbatim>\<open>stop()\<close> right after changes nothing: not the class
  lists, and nothing else of the store either.
\<close>

theorem stop_paints_first_position:
  assumes "r < length (blinkers w0)" and "b_pattern (blinkers w0 ! r) \<noteq> []"
  shows "let w = blinker_stop r ((blinker_update r ^^ n) w0) in
           (\<forall>e \<in> set (b_targets (blinkers w ! r)). shows_first (blinkers w ! r) (classes w e))
           \<and> classes (blinker_stop r w) = classes w
           \<and> blinker_stop r w = w"
proof -
  let ?u = "(blinker_update r ^^ n) w0"
  let ?w = "blinker_stop r ?u"
  have len: "r < length (blinkers ?u)" and pat: "b_pattern (blinkers ?u ! r) \<noteq> []"
    using assms updates_frame [where r = r and n = n and w = w0] by simp_all
  have shown: "shows_first (blinkers ?w ! r) (classes ?w e)"
    if "e \<in> set (b_targets (blinkers ?w ! r))" for e
    using that flags_shows [OF pat] len
    by (simp add: blinker_stop_eq fold_paint shows_first_def)
  have twice: "blinker_stop r ?w = ?w"
    using len by (rule blinker_stop_twice)
  show ?thesis
    unfolding Let_def using shown twice by simp
qed

theorem stop_paints_first_position_witness:
  "0 < length (blinkers demo) \<and> b_pattern (blinkers demo ! 0) \<noteq> []
   \<and> b_targets (blinkers (blinker_stop 0 ((blinker_update 0 ^^ 3) demo)) ! 0) = [7]
   \<and> classes ((blinker_update 0 ^^ 3) demo) 7 = [''red'']
   \<and> classes (blinker_stop 0 ((blinker_update 0 ^^ 3) demo)) 7 = [''green'']
   \<and> shows_first (blinkers (blinker_stop 0 ((blinker_update 0 ^^ 3) demo)) ! 0)
        (classes (blinker_stop 0 ((blinker_update 0 ^^ 3) demo)) 7)
   \<and> blinker_stop 0 (blinker_stop 0 ((blinker_update 0 ^^ 3) demo))
        = blinker_stop 0 ((blinker_update 0 ^^ 3) demo)"
  using stop_paints_first_position [where r = 0 and ?w0.0 = demo and n = 3]
  by (simp add: demo_eq eval_nat_numeral blinker_update_def blinker_stop_eq Let_def blank_def
      next_cursor_def paint_def flags_def pattern_at_def classList_add_def classList_remove_def
      shows_first_def)

text \<open>
  C4. The claim: after every \<^verbatim>\<open>stop()\<close>, the one run by the factory included, the
  cursor \<open>i\<close> is 0. The code: \<^verbatim>\<open>stop\<close> sets \<open>i = 0\<close> and then calls
  \<^verbatim>\<open>update()\<close>, which paints position 0 and moves the cursor on. The blinker that
  \<^verbatim>\<open>nagios_hawk\<close> builds (a pattern of 35 characters) comes out of its factory with
  the cursor at 1.
\<close>

theorem cursor_after_stop_counterexample:
  "b_i (blinkers (snd (BlinkerSignal ''sos-on'' ''sos-off'' 250
        sos_pattern blank)) ! 0) = Num 1
   \<and> b_i (blinkers (snd (BlinkerSignal ''sos-on'' ''sos-off'' 250
        sos_pattern blank)) ! 0) \<noteq> Num 0"
  by (simp add: BlinkerSignal_def Let_def blinker_stop_eq sos_cursor blank_def)


text \<open>
  C4, as the code has it: after every \<^verbatim>\<open>stop()\<close>, from any state of the store and
  also at the end of the factory, the cursor is \<open>1 mod length pattern\<close>, the position after
  the one just painted. It is 0 exactly when the pattern has one character.
\<close>

theorem cursor_after_stop:
  "(r < length (blinkers w) \<and> b_pattern (blinkers w ! r) \<noteq> [] \<longrightarrow>
      b_i (blinkers (blinker_stop r w) ! r) = Num (1 mod length (b_pattern (blinkers w ! r))))
   \<and> (pattern \<noteq> [] \<longrightarrow>
      (case BlinkerSignal on off time pattern w of
         (r', w') \<Rightarrow> b_i (blinkers w' ! r') = Num (1 mod length pattern)))"
  by (simp add: BlinkerSignal_def Let_def blinker_stop_eq next_cursor_0)

theorem cursor_after_stop_witness:
  "0 < length (blinkers demo) \<and> b_pattern (blinkers demo ! 0) \<noteq> []
   \<and> b_i (blinkers (blinker_stop 0 demo) ! 0) = Num 1
   \<and> b_i (blinkers (snd (BlinkerSignal ''red'' ''green'' 1000 ''-'' blank)) ! 0) = Num 0
   \<and> b_i (blinkers (snd (BlinkerSignal ''red'' ''green'' 1000 '' -'' blank)) ! 0) = Num 1"
  using cursor_after_stop [where r = 0 and w = demo and pattern = "''-''" and on = "''red''"
      and off = "''green''" and time = 1000]
    cursor_after_stop [where r = 0 and w = blank and pattern = "'' -''" and on = "''red''"
      and off = "''green''" and time = 1000]
  by (simp add: demo_eq blank_def blinker_stop_eq next_cursor_def BlinkerSignal_def Let_def)


subsection \<open>Timers: the table and the variables agree\<close>

lemma owner_ok_cong:
  assumes "length (blinkers w') = length (blinkers w)"
    and "length (audios w') = length (audios w)"
    and "\<And>r. r < length (blinkers w) \<Longrightarrow>
           b_timer (blinkers w' ! r) = b_timer (blinkers w ! r)
           \<and> b_time (blinkers w' ! r) = b_time (blinkers w ! r)"
    and "\<And>r. r < length (audios w) \<Longrightarrow>
           a_timer (audios w' ! r) = a_timer (audios w ! r)
           \<and> a_time (audios w' ! r) = a_time (audios w ! r)"
  shows "owner_ok w' x = owner_ok w x"
proof -
  obtain t j time where x: "x = (t, j, time)" by (cases x)
  show ?thesis
    using assms by (cases j) (auto simp add: x)
qed

lemma consistent_cong:
  assumes "intervals w' = intervals w" and "next_timer w' = next_timer w"
    and "length (blinkers w') = length (blinkers w)"
    and "length (audios w') = length (audios w)"
    and "\<And>r. r < length (blinkers w) \<Longrightarrow>
           b_timer (blinkers w' ! r) = b_timer (blinkers w ! r)
           \<and> b_time (blinkers w' ! r) = b_time (blinkers w ! r)"
    and "\<And>r. r < length (audios w) \<Longrightarrow>
           a_timer (audios w' ! r) = a_timer (audios w ! r)
           \<and> a_time (audios w' ! r) = a_time (audios w ! r)"
  shows "consistent w' = consistent w"
  unfolding consistent_def
  by (simp add: assms owner_ok_cong [OF assms(3-6)] cong: option.case_cong)

lemma nth_upd_field:
  "f y = f (xs ! r) \<Longrightarrow> f (xs[r := y] ! r') = f (xs ! r')"
  by (cases "r < length xs"; cases "r' = r") (simp_all add: list_update_beyond)

lemma consistent_blinker_update: "consistent (blinker_update r w) = consistent w"
  by (rule consistent_cong) (simp_all add: blinker_update_def Let_def nth_upd_field)

lemma consistent_blinker_add: "consistent (blinker_add r e w) = consistent w"
  by (rule consistent_cong) (simp_all add: blinker_add_def nth_upd_field)

lemma consistent_blinker_empty: "consistent (blinker_empty r w) = consistent w"
  by (rule consistent_cong) (simp_all add: blinker_empty_def nth_upd_field)

lemma consistent_audio_add: "consistent (audio_add r e w) = consistent w"
  by (rule consistent_cong) (simp_all add: audio_add_def nth_upd_field)

lemma consistent_audio_empty: "consistent (audio_empty r w) = consistent w"
  by (rule consistent_cong) (simp_all add: audio_empty_def nth_upd_field)

lemma consistent_audio_play: "consistent (audio_play r w) = consistent w"
  by (rule consistent_cong)
    (simp_all add: audio_play_def Let_def nth_upd_field split: prod.splits)

lemma consistent_playback_fails: "consistent (playback_fails r f w) = consistent w"
  by (rule consistent_cong) (simp_all add: playback_fails_def nth_upd_field)


lemma owner_ok_alt:
  "owner_ok w x =
     (case fst (snd x) of
        BlinkerTick r \<Rightarrow> r < length (blinkers w) \<and> b_timer (blinkers w ! r) = Some (fst x)
                          \<and> snd (snd x) = b_time (blinkers w ! r)
      | AudioTick r \<Rightarrow> r < length (audios w) \<and> a_timer (audios w ! r) = Some (fst x)
                          \<and> snd (snd x) = a_time (audios w ! r))"
  by (cases x; cases "fst (snd x)") auto

lemma blinker_start_eq:
  "blinker_start r w =
     (case b_timer (blinkers w ! r) of
        None \<Rightarrow>
          w\<lparr>intervals := intervals w @ [(next_timer w, BlinkerTick r, b_time (blinkers w ! r))],
            next_timer := Suc (next_timer w),
            blinkers := (blinkers w)[r := (blinkers w ! r)\<lparr>b_timer := Some (next_timer w)\<rparr>]\<rparr>
      | Some t \<Rightarrow> w)"
  by (simp add: blinker_start_def setInterval_def split: option.splits)

lemma consistent_blinker_start:
  assumes "consistent w" and "r < length (blinkers w)"
  shows "consistent (blinker_start r w)"
proof (cases "b_timer (blinkers w ! r)")
  case (Some t)
  then show ?thesis using assms by (simp add: blinker_start_eq)
next
  case None
  have fresh: "\<forall>x \<in> set (intervals w). fst x < next_timer w"
    using assms by (simp add: consistent_def)
  then have new: "next_timer w \<notin> fst ` set (intervals w)"
    by auto
  show ?thesis
    using assms None new fresh
    apply (simp add: blinker_start_eq consistent_def)
    apply (intro conjI ballI allI impI)
    apply (auto simp add: owner_ok_alt nth_list_update less_Suc_eq split: job.splits option.splits)
    done
qed


lemma one_job_per_timer:
  "consistent w \<Longrightarrow> (t, j, p) \<in> set (intervals w) \<Longrightarrow> (t, j', p') \<in> set (intervals w)
   \<Longrightarrow> j = j' \<and> p = p'"
  using eq_key_imp_eq_value [of "intervals w" t "(j, p)" "(j', p')"]
  by (simp add: consistent_def)

lemma blinker_timer_scheduled:
  "consistent w \<Longrightarrow> r < length (blinkers w) \<Longrightarrow> b_timer (blinkers w ! r) = Some t
   \<Longrightarrow> (t, BlinkerTick r, b_time (blinkers w ! r)) \<in> set (intervals w)"
  by (auto simp add: consistent_def split: option.splits)

lemma audio_timer_scheduled:
  "consistent w \<Longrightarrow> r < length (audios w) \<Longrightarrow> a_timer (audios w ! r) = Some t
   \<Longrightarrow> (t, AudioTick r, a_time (audios w ! r)) \<in> set (intervals w)"
  by (auto simp add: consistent_def split: option.splits)

lemma consistent_blinker_stop:
  assumes "consistent w" and "r < length (blinkers w)"
  shows "consistent (blinker_stop r w)"
proof (cases "b_timer (blinkers w ! r)")
  case None
  have "consistent (blinker_stop r w) = consistent w"
    by (rule consistent_cong) (simp_all add: blinker_stop_eq assms None nth_upd_field)
  then show ?thesis using assms by simp
next
  case (Some t)
  note mine = blinker_timer_scheduled [OF assms Some]
  have others_b: "t' \<noteq> t"
    if "r' < length (blinkers w)" "r' \<noteq> r" "b_timer (blinkers w ! r') = Some t'" for r' t'
    using one_job_per_timer [OF assms(1) mine, of "BlinkerTick r'" "b_time (blinkers w ! r')"]
      blinker_timer_scheduled [OF assms(1) that(1) that(3)] that(2)
    by auto
  have others_a: "t' \<noteq> t"
    if "r' < length (audios w)" "a_timer (audios w ! r') = Some t'" for r' t'
    using one_job_per_timer [OF assms(1) mine, of "AudioTick r'" "a_time (audios w ! r')"]
      audio_timer_scheduled [OF assms(1) that(1) that(2)]
    by auto
  show ?thesis
    using assms Some others_b others_a
    apply (simp add: blinker_stop_eq consistent_def distinct_map_filter)
    apply (intro conjI ballI allI impI)
    apply (auto simp add: owner_ok_alt nth_list_update split: job.splits option.splits)
    done
qed


lemma audio_play_eq:
  "audio_play r w =
     w\<lparr>audios := (audios w)[r := (audios w ! r)\<lparr>a_audio :=
        (if m_fails (a_audio (audios w ! r))
         then (a_audio (audios w ! r))\<lparr>m_requests := Suc (m_requests (a_audio (audios w ! r))),
                m_unhandled := Suc (m_unhandled (a_audio (audios w ! r)))\<rparr>
         else (a_audio (audios w ! r))\<lparr>m_requests := Suc (m_requests (a_audio (audios w ! r))),
                m_paused := False\<rparr>)\<rparr>]\<rparr>"
  by (simp add: audio_play_def play_def Let_def)

lemma audio_play_frame:
  "length (audios (audio_play r w)) = length (audios w)"
  "a_timer (audios (audio_play r w) ! r') = a_timer (audios w ! r')"
  "a_time (audios (audio_play r w) ! r') = a_time (audios w ! r')"
  "a_targets (audios (audio_play r w) ! r') = a_targets (audios w ! r')"
  "intervals (audio_play r w) = intervals w"
  "next_timer (audio_play r w) = next_timer w"
  "blinkers (audio_play r w) = blinkers w"
  by (simp_all add: audio_play_eq nth_upd_field)

lemma audio_start_eq:
  "audio_start r w =
     (case a_timer (audios w ! r) of
        None \<Rightarrow>
          (audio_play r w)\<lparr>intervals := intervals w @ [(next_timer w, AudioTick r, a_time (audios w ! r))],
            next_timer := Suc (next_timer w),
            audios := (audios (audio_play r w))[r := (audios (audio_play r w) ! r)\<lparr>a_timer := Some (next_timer w)\<rparr>]\<rparr>
      | Some t \<Rightarrow> w)"
  by (simp add: audio_start_def setInterval_def Let_def audio_play_frame split: option.splits)

lemma audio_stop_eq:
  "audio_stop r w =
     (case a_timer (audios w ! r) of
        Some t \<Rightarrow>
          w\<lparr>intervals := filter (\<lambda>(t', j, time). t' \<noteq> t) (intervals w),
            audios := (audios w)[r := (audios w ! r)\<lparr>a_timer := None\<rparr>]\<rparr>
      | None \<Rightarrow> w)"
  by (simp add: audio_stop_def clearInterval_def Let_def split: option.splits)

lemma consistent_audio_start:
  assumes "consistent w" and "r < length (audios w)"
  shows "consistent (audio_start r w)"
proof (cases "a_timer (audios w ! r)")
  case (Some t)
  then show ?thesis using assms by (simp add: audio_start_eq)
next
  case None
  let ?p = "audio_play r w"
  have cp: "consistent ?p" using assms by (simp add: consistent_audio_play)
  have lp: "r < length (audios ?p)" using assms by (simp add: audio_play_frame)
  have np: "a_timer (audios ?p ! r) = None" using None by (simp add: audio_play_frame)
  have fresh: "\<forall>x \<in> set (intervals ?p). fst x < next_timer ?p"
    using cp by (simp add: consistent_def)
  then have new: "next_timer ?p \<notin> fst ` set (intervals ?p)"
    by auto
  have eq: "audio_start r w =
      ?p\<lparr>intervals := intervals ?p @ [(next_timer ?p, AudioTick r, a_time (audios ?p ! r))],
         next_timer := Suc (next_timer ?p),
         audios := (audios ?p)[r := (audios ?p ! r)\<lparr>a_timer := Some (next_timer ?p)\<rparr>]\<rparr>"
    using None by (simp add: audio_start_eq audio_play_frame)
  show ?thesis
    unfolding eq
    using cp lp np new fresh
    apply (simp add: consistent_def)
    apply (intro conjI ballI allI impI)
    apply (auto simp add: owner_ok_alt nth_list_update less_Suc_eq split: job.splits option.splits)
    done
qed

lemma consistent_audio_stop:
  assumes "consistent w" and "r < length (audios w)"
  shows "consistent (audio_stop r w)"
proof (cases "a_timer (audios w ! r)")
  case None
  then show ?thesis using assms by (simp add: audio_stop_eq)
next
  case (Some t)
  note mine = audio_timer_scheduled [OF assms Some]
  have others_a: "t' \<noteq> t"
    if "r' < length (audios w)" "r' \<noteq> r" "a_timer (audios w ! r') = Some t'" for r' t'
    using one_job_per_timer [OF assms(1) mine, of "AudioTick r'" "a_time (audios w ! r')"]
      audio_timer_scheduled [OF assms(1) that(1) that(3)] that(2)
    by auto
  have others_b: "t' \<noteq> t"
    if "r' < length (blinkers w)" "b_timer (blinkers w ! r') = Some t'" for r' t'
    using one_job_per_timer [OF assms(1) mine, of "BlinkerTick r'" "b_time (blinkers w ! r')"]
      blinker_timer_scheduled [OF assms(1) that(1) that(2)]
    by auto
  show ?thesis
    using assms Some others_b others_a
    apply (simp add: audio_stop_eq consistent_def distinct_map_filter)
    apply (intro conjI ballI allI impI)
    apply (auto simp add: owner_ok_alt nth_list_update split: job.splits option.splits)
    done
qed

lemma filter_the_one:
  "distinct xs \<Longrightarrow> x \<in> set xs \<Longrightarrow> filter (\<lambda>y. y = x) xs = [x]"
proof (induction xs)
  case Nil
  then show ?case by simp
next
  case (Cons a xs)
  show ?case
  proof (cases "a = x")
    case True
    with Cons.prems(1) have "x \<notin> set xs" by simp
    then have "filter (\<lambda>y. y = x) xs = []" by (auto simp add: filter_empty_conv)
    with True show ?thesis by simp
  next
    case False
    with Cons.prems have "x \<in> set xs" "distinct xs" by simp_all
    then have "filter (\<lambda>y. y = x) xs = [x]" using Cons.IH by simp
    with False show ?thesis by simp
  qed
qed

lemma filter_single:
  assumes "distinct xs" and "x \<in> set xs" and "P x" and "\<And>y. y \<in> set xs \<Longrightarrow> P y \<Longrightarrow> y = x"
  shows "filter P xs = [x]"
proof -
  have "filter P xs = filter (\<lambda>y. y = x) xs"
    using assms(3,4) by (intro filter_cong refl) blast
  then show ?thesis
    using filter_the_one [OF assms(1,2)] by simp
qed

lemma consistent_distinct: "consistent w \<Longrightarrow> distinct (intervals w)"
  by (simp add: consistent_def distinct_map)

lemma scheduled_blinker:
  assumes "consistent w" and "r < length (blinkers w)"
  shows "scheduled (BlinkerTick r) w =
     (case b_timer (blinkers w ! r) of None \<Rightarrow> []
      | Some t \<Rightarrow> [(t, BlinkerTick r, b_time (blinkers w ! r))])"
proof (cases "b_timer (blinkers w ! r)")
  case None
  have "\<forall>x \<in> set (intervals w). owner_ok w x" using assms by (simp add: consistent_def)
  with None have "\<forall>x \<in> set (intervals w). fst (snd x) \<noteq> BlinkerTick r"
    by (auto simp add: owner_ok_alt)
  then have "scheduled (BlinkerTick r) w = []"
    by (auto simp add: scheduled_def filter_empty_conv)
  with None show ?thesis by simp
next
  case (Some t)
  have own: "\<forall>x \<in> set (intervals w). owner_ok w x" using assms by (simp add: consistent_def)
  have "scheduled (BlinkerTick r) w = [(t, BlinkerTick r, b_time (blinkers w ! r))]"
    unfolding scheduled_def
    using own Some
    by (intro filter_single consistent_distinct [OF assms(1)]
        blinker_timer_scheduled [OF assms Some]) (auto simp add: owner_ok_alt)
  with Some show ?thesis by simp
qed

lemma scheduled_audio:
  assumes "consistent w" and "r < length (audios w)"
  shows "scheduled (AudioTick r) w =
     (case a_timer (audios w ! r) of None \<Rightarrow> []
      | Some t \<Rightarrow> [(t, AudioTick r, a_time (audios w ! r))])"
proof (cases "a_timer (audios w ! r)")
  case None
  have "\<forall>x \<in> set (intervals w). owner_ok w x" using assms by (simp add: consistent_def)
  with None have "\<forall>x \<in> set (intervals w). fst (snd x) \<noteq> AudioTick r"
    by (auto simp add: owner_ok_alt)
  then have "scheduled (AudioTick r) w = []"
    by (auto simp add: scheduled_def filter_empty_conv)
  with None show ?thesis by simp
next
  case (Some t)
  have own: "\<forall>x \<in> set (intervals w). owner_ok w x" using assms by (simp add: consistent_def)
  have "scheduled (AudioTick r) w = [(t, AudioTick r, a_time (audios w ! r))]"
    unfolding scheduled_def
    using own Some
    by (intro filter_single consistent_distinct [OF assms(1)]
        audio_timer_scheduled [OF assms Some]) (auto simp add: owner_ok_alt)
  with Some show ?thesis by simp
qed


lemma consistent_blank: "consistent blank"
  by (simp add: consistent_def blank_def)

lemma consistent_new_blinker:
  assumes "consistent w" and "b_timer cell = None"
  shows "consistent (w\<lparr>blinkers := blinkers w @ [cell]\<rparr>)"
  using assms
  apply (simp add: consistent_def)
  apply (intro conjI ballI allI impI)
  apply (auto simp add: owner_ok_alt nth_append less_Suc_eq split: job.splits option.splits)
  done

lemma consistent_new_audio:
  assumes "consistent w" and "a_timer cell = None"
  shows "consistent (w\<lparr>audios := audios w @ [cell]\<rparr>)"
  using assms
  apply (simp add: consistent_def)
  apply (intro conjI ballI allI impI)
  apply (auto simp add: owner_ok_alt nth_append less_Suc_eq split: job.splits option.splits)
  done

lemma consistent_BlinkerSignal:
  "consistent w \<Longrightarrow> consistent (snd (BlinkerSignal on off time pattern w))"
  by (simp add: BlinkerSignal_def Let_def consistent_blinker_stop consistent_new_blinker)

lemma consistent_AudioSignal:
  "consistent w \<Longrightarrow> consistent (snd (AudioSignal uri time w))"
  by (simp add: AudioSignal_def Let_def consistent_new_audio)

lemma consistent_compose: "consistent (snd (compose ss w)) = consistent w"
  by (rule consistent_cong) (simp_all add: compose_def)

lemma nagios_hawk_blank:
  "nagios_hawk blank =
     (\<lparr> k_observer = None, k_sos = 0, k_alarm = 0, k_signal = SCompose 0 [SBlinker 0, SAudio 0] \<rparr>,
      blank\<lparr>blinkers := [\<lparr> b_on = ''sos-on'', b_off = ''sos-off'', b_time = 250,
                 b_pattern = sos_pattern,
                 b_targets = [], b_timer = None, b_i = Num 1 \<rparr>],
            audios := [\<lparr> a_time = 30000, a_targets = [], a_timer = None,
                 a_audio = \<lparr> m_src = bell,
                   m_paused = True, m_fails = False, m_requests = 0, m_unhandled = 0 \<rparr> \<rparr>],
            composed := 1\<rparr>)"
  by (simp add: nagios_hawk_def BlinkerSignal_def AudioSignal_def compose_def Let_def
      blinker_stop_eq sos_cursor blank_def)

lemma consistent_nagios_hawk: "consistent w \<Longrightarrow> consistent (snd (nagios_hawk w))"
  using consistent_compose consistent_AudioSignal consistent_BlinkerSignal
  by (simp add: nagios_hawk_def Let_def split: prod.splits) (metis snd_conv)

lemma blinker_start_twice: "blinker_start r (blinker_start r w) = blinker_start r w" 
  if "r < length (blinkers w)"
  using that by (cases "b_timer (blinkers w ! r)") (simp_all add: blinker_start_eq)

lemma audio_start_twice: "audio_start r (audio_start r w) = audio_start r w" 
  if "r < length (audios w)"
  using that by (cases "a_timer (audios w ! r)") (simp_all add: audio_start_eq audio_play_frame)

lemma blinker_start_armed:
  "r < length (blinkers w) \<Longrightarrow> b_timer (blinkers (blinker_start r w) ! r) \<noteq> None
     \<and> length (blinkers (blinker_start r w)) = length (blinkers w)"
  by (cases "b_timer (blinkers w ! r)") (simp_all add: blinker_start_eq)

lemma audio_start_armed:
  "r < length (audios w) \<Longrightarrow> a_timer (audios (audio_start r w) ! r) \<noteq> None
     \<and> length (audios (audio_start r w)) = length (audios w)"
  by (cases "a_timer (audios w ! r)") (simp_all add: audio_start_eq audio_play_frame)

text \<open>
  C6. \<^verbatim>\<open>start()\<close> twice in a row, on a blinker and on an alarm, in any store where
  the timer table and the timer variables agree: the second call changes nothing at all
  (the store after two calls is the store after one), and the timer table then holds
  exactly one schedule for the signal.
\<close>

theorem start_twice_one_schedule:
  assumes "consistent w"
  shows "(r < length (blinkers w) \<longrightarrow>
            blinker_start r (blinker_start r w) = blinker_start r w
            \<and> length (scheduled (BlinkerTick r) (blinker_start r (blinker_start r w))) = 1)
       \<and> (r' < length (audios w) \<longrightarrow>
            audio_start r' (audio_start r' w) = audio_start r' w
            \<and> length (scheduled (AudioTick r') (audio_start r' (audio_start r' w))) = 1)"
proof (intro conjI impI)
  assume r: "r < length (blinkers w)"
  show "blinker_start r (blinker_start r w) = blinker_start r w"
    using r by (rule blinker_start_twice)
  have len: "r < length (blinkers (blinker_start r w))"
    using blinker_start_armed [OF r] r by simp
  have "length (scheduled (BlinkerTick r) (blinker_start r w)) = 1"
    using scheduled_blinker [OF consistent_blinker_start [OF assms r] len] blinker_start_armed [OF r]
    by (auto split: option.splits)
  then show "length (scheduled (BlinkerTick r) (blinker_start r (blinker_start r w))) = 1"
    by (simp add: blinker_start_twice [OF r])
next
  assume r: "r' < length (audios w)"
  show "audio_start r' (audio_start r' w) = audio_start r' w"
    using r by (rule audio_start_twice)
  have len: "r' < length (audios (audio_start r' w))"
    using audio_start_armed [OF r] r by simp
  have "length (scheduled (AudioTick r') (audio_start r' w)) = 1"
    using scheduled_audio [OF consistent_audio_start [OF assms r] len] audio_start_armed [OF r]
    by (auto split: option.splits)
  then show "length (scheduled (AudioTick r') (audio_start r' (audio_start r' w))) = 1"
    by (simp add: audio_start_twice [OF r])
qed

theorem start_twice_one_schedule_witness:
  "consistent (snd (nagios_hawk blank))
   \<and> 0 < length (blinkers (snd (nagios_hawk blank))) \<and> 0 < length (audios (snd (nagios_hawk blank)))
   \<and> scheduled (BlinkerTick 0) (blinker_start 0 (blinker_start 0 (snd (nagios_hawk blank))))
       = [(1, BlinkerTick 0, 250)]
   \<and> scheduled (AudioTick 0) (audio_start 0 (audio_start 0 (snd (nagios_hawk blank))))
       = [(1, AudioTick 0, 30000)]
   \<and> length (scheduled (BlinkerTick 0) (blinker_start 0 (blinker_start 0 (snd (nagios_hawk blank))))) = 1
   \<and> length (scheduled (AudioTick 0) (audio_start 0 (audio_start 0 (snd (nagios_hawk blank))))) = 1"
  using start_twice_one_schedule [OF consistent_nagios_hawk [OF consistent_blank], where r = 0 and r' = 0]
    consistent_nagios_hawk [OF consistent_blank]
  unfolding nagios_hawk_blank snd_conv
  by (simp add: blank_def blinker_start_eq audio_start_eq audio_play_eq scheduled_def)


lemma map_upd_field: "f y = f (xs ! r) \<Longrightarrow> map f (xs[r := y]) = map f xs"
  by (simp add: list_eq_iff_nth_eq nth_upd_field)

text \<open>
  C10. \<^verbatim>\<open>AudioSignal.stop()\<close> cancels the schedule and clears the \<^verbatim>\<open>timer\<close>
  variable, and that is all: the audio element of every alarm is as it was (not paused,
  not reset, no request made), and so are the targets, the periods, the blinkers, the
  class lists, the listeners and the watchers. A playback under way is not stopped.
\<close>

theorem audio_stop_only_cancels_schedule:
  "map a_audio (audios (audio_stop r w)) = map a_audio (audios w)
   \<and> map a_targets (audios (audio_stop r w)) = map a_targets (audios w)
   \<and> map a_time (audios (audio_stop r w)) = map a_time (audios w)
   \<and> blinkers (audio_stop r w) = blinkers w
   \<and> classes (audio_stop r w) = classes w
   \<and> listeners (audio_stop r w) = listeners w
   \<and> watchers (audio_stop r w) = watchers w
   \<and> intervals (audio_stop r w) =
        (case a_timer (audios w ! r) of None \<Rightarrow> intervals w
         | Some t \<Rightarrow> filter (\<lambda>(t', j, time). t' \<noteq> t) (intervals w))
   \<and> (r < length (audios w) \<longrightarrow> a_timer (audios (audio_stop r w) ! r) = None)"
  by (cases "a_timer (audios w ! r)") (simp_all add: audio_stop_eq map_upd_field)

lemma ringing_eq:
  "ringing =
      blank\<lparr>blinkers := [\<lparr> b_on = ''sos-on'', b_off = ''sos-off'', b_time = 250,
                 b_pattern = sos_pattern,
                 b_targets = [], b_timer = None, b_i = Num 1 \<rparr>],
            audios := [\<lparr> a_time = 30000, a_targets = [], a_timer = Some 1,
                 a_audio = \<lparr> m_src = bell,
                   m_paused = False, m_fails = False, m_requests = 1, m_unhandled = 0 \<rparr> \<rparr>],
            composed := 1, intervals := [(1, AudioTick 0, 30000)], next_timer := 2\<rparr>"
  unfolding ringing_def nagios_hawk_blank snd_conv
  by (simp add: blank_def audio_start_eq audio_play_eq)

theorem audio_stop_only_cancels_schedule_witness:
  "0 < length (audios ringing)
   \<and> a_audio (audios ringing ! 0) =
       \<lparr> m_src = bell,
         m_paused = False, m_fails = False, m_requests = 1, m_unhandled = 0 \<rparr>
   \<and> map a_audio (audios (audio_stop 0 ringing)) = map a_audio (audios ringing)
   \<and> intervals ringing = [(1, AudioTick 0, 30000)]
   \<and> intervals (audio_stop 0 ringing) = []
   \<and> a_timer (audios (audio_stop 0 ringing) ! 0) = None"
  using audio_stop_only_cancels_schedule [where r = 0 and w = ringing]
  by (simp add: ringing_eq blank_def audio_stop_eq)

lemma timer_is_fst: "(\<lambda>(t', j', time). P t') = (\<lambda>x. P (fst x))"
  by (simp add: fun_eq_iff)

lemma find_by_fst:
  "distinct (map fst xs) \<Longrightarrow> (t, v) \<in> set xs \<Longrightarrow> find (\<lambda>x. fst x = t) xs = Some (t, v)"
proof (induction xs)
  case Nil
  then show ?case by simp
next
  case (Cons x xs)
  show ?case
  proof (cases "fst x = t")
    case True
    with Cons.prems have "x = (t, v)"
      by (cases x) (auto simp add: image_iff)
    then show ?thesis by simp
  next
    case False
    with Cons.prems have "distinct (map fst xs)" "(t, v) \<in> set xs" by auto
    then have "find (\<lambda>x. fst x = t) xs = Some (t, v)" by (rule Cons.IH)
    with False show ?thesis by simp
  qed
qed

lemma find_by_timer:
  "distinct (map fst xs) \<Longrightarrow> (t, j, p) \<in> set xs
   \<Longrightarrow> find (\<lambda>(t', j', time). t' = t) xs = Some (t, j, p)"
  unfolding timer_is_fst by (rule find_by_fst)

lemma tick_audio:
  assumes "consistent w" and "r < length (audios w)" and "a_timer (audios w ! r) = Some t"
  shows "tick t w = audio_play r w"
proof -
  have "find (\<lambda>(t', j', time). t' = t) (intervals w) = Some (t, AudioTick r, a_time (audios w ! r))"
    using assms(1) audio_timer_scheduled [OF assms]
    by (intro find_by_timer) (simp_all add: consistent_def)
  then show ?thesis by (simp add: tick_def)
qed

lemma tick_blinker:
  assumes "consistent w" and "r < length (blinkers w)" and "b_timer (blinkers w ! r) = Some t"
  shows "tick t w = blinker_update r w"
proof -
  have "find (\<lambda>(t', j', time). t' = t) (intervals w) = Some (t, BlinkerTick r, b_time (blinkers w ! r))"
    using assms(1) blinker_timer_scheduled [OF assms]
    by (intro find_by_timer) (simp_all add: consistent_def)
  then show ?thesis by (simp add: tick_def)
qed

lemma audio_play_counts:
  "r < length (audios w) \<Longrightarrow>
   m_requests (a_audio (audios (audio_play r w) ! r)) = Suc (m_requests (a_audio (audios w ! r)))
   \<and> m_fails (a_audio (audios (audio_play r w) ! r)) = m_fails (a_audio (audios w ! r))
   \<and> m_unhandled (a_audio (audios (audio_play r w) ! r)) =
        (if m_fails (a_audio (audios w ! r)) then Suc (m_unhandled (a_audio (audios w ! r)))
         else m_unhandled (a_audio (audios w ! r)))"
  by (simp add: audio_play_eq)

lemma ticks_audio:
  assumes "consistent w" and "r < length (audios w)" and "a_timer (audios w ! r) = Some t"
  shows "consistent ((tick t ^^ n) w)
     \<and> length (audios ((tick t ^^ n) w)) = length (audios w)
     \<and> intervals ((tick t ^^ n) w) = intervals w
     \<and> a_timer (audios ((tick t ^^ n) w) ! r) = Some t
     \<and> a_time (audios ((tick t ^^ n) w) ! r) = a_time (audios w ! r)
     \<and> m_fails (a_audio (audios ((tick t ^^ n) w) ! r)) = m_fails (a_audio (audios w ! r))
     \<and> m_requests (a_audio (audios ((tick t ^^ n) w) ! r)) = m_requests (a_audio (audios w ! r)) + n
     \<and> m_unhandled (a_audio (audios ((tick t ^^ n) w) ! r)) =
          (if m_fails (a_audio (audios w ! r)) then m_unhandled (a_audio (audios w ! r)) + n
           else m_unhandled (a_audio (audios w ! r)))"
proof (induction n)
  case 0
  show ?case using assms by simp
next
  case (Suc n)
  let ?u = "(tick t ^^ n) w"
  from Suc have u: "consistent ?u" "r < length (audios ?u)" "a_timer (audios ?u ! r) = Some t"
    using assms(2) by simp_all
  have step: "(tick t ^^ Suc n) w = audio_play r ?u"
    using tick_audio [OF u] by simp
  show ?case
    unfolding step
    using Suc u audio_play_counts [OF u(2)]
    by (simp add: consistent_audio_play audio_play_frame)
qed


lemma muted_eq:
  "muted =
      blank\<lparr>blinkers := [\<lparr> b_on = ''sos-on'', b_off = ''sos-off'', b_time = 250,
                 b_pattern = sos_pattern,
                 b_targets = [], b_timer = None, b_i = Num 1 \<rparr>],
            audios := [\<lparr> a_time = 30000, a_targets = [], a_timer = Some 1,
                 a_audio = \<lparr> m_src = bell,
                   m_paused = False, m_fails = True, m_requests = 1, m_unhandled = 0 \<rparr> \<rparr>],
            composed := 1, intervals := [(1, AudioTick 0, 30000)], next_timer := 2\<rparr>"
  by (simp add: muted_def ringing_eq playback_fails_def blank_def)

lemma consistent_ringing: "consistent ringing"
  unfolding ringing_def
  by (rule consistent_audio_start [OF consistent_nagios_hawk [OF consistent_blank]])
    (simp add: nagios_hawk_blank)

lemma consistent_muted: "consistent muted"
  by (simp add: muted_def consistent_playback_fails consistent_ringing)

text \<open>
  C9. The claim: a playback failure on a tick is caught and ignored, and never cancels
  the schedule. The code: the tick is \<^verbatim>\<open>function() { audio.play(); }\<close>; nothing
  catches anything. On the page with the alarm started and the bell unplayable, the tick
  of timer 1 leaves one rejection that no handler received.
\<close>

theorem failed_tick_is_not_caught:
  "m_fails (a_audio (audios muted ! 0))
   \<and> a_timer (audios muted ! 0) = Some 1
   \<and> m_unhandled (a_audio (audios muted ! 0)) = 0
   \<and> m_unhandled (a_audio (audios (tick 1 muted) ! 0)) = 1"
  by (simp add: muted_eq blank_def tick_def audio_play_eq)

text \<open>
  C9, as the code has it: for a started alarm whose playback fails, the failure of a tick
  is not caught (it is left as an unhandled rejection, one per failing tick), and it
  never cancels the schedule: after any number \<open>n\<close> of such ticks the timer table
  and the \<^verbatim>\<open>timer\<close> variable are unchanged, the alarm's schedule is still the one
  live schedule, and every tick has called \<^verbatim>\<open>play()\<close> again.
\<close>

theorem failed_tick_keeps_schedule:
  assumes "consistent w" and "r < length (audios w)" and "a_timer (audios w ! r) = Some t"
    and "m_fails (a_audio (audios w ! r))"
  shows "m_unhandled (a_audio (audios (tick t w) ! r)) = Suc (m_unhandled (a_audio (audios w ! r)))
     \<and> intervals ((tick t ^^ n) w) = intervals w
     \<and> a_timer (audios ((tick t ^^ n) w) ! r) = Some t
     \<and> scheduled (AudioTick r) ((tick t ^^ n) w) = [(t, AudioTick r, a_time (audios w ! r))]
     \<and> m_requests (a_audio (audios ((tick t ^^ n) w) ! r)) = m_requests (a_audio (audios w ! r)) + n
     \<and> m_unhandled (a_audio (audios ((tick t ^^ n) w) ! r)) = m_unhandled (a_audio (audios w ! r)) + n"
proof -
  note n = ticks_audio [OF assms(1-3), of n]
  note one = ticks_audio [OF assms(1-3), of 1]
  have len: "r < length (audios ((tick t ^^ n) w))" using n assms(2) by simp
  have "scheduled (AudioTick r) ((tick t ^^ n) w) = [(t, AudioTick r, a_time (audios w ! r))]"
    using scheduled_audio [OF _ len] n by simp
  then show ?thesis
    using n one assms(4) by simp
qed

theorem failed_tick_keeps_schedule_witness:
  "consistent muted \<and> 0 < length (audios muted) \<and> a_timer (audios muted ! 0) = Some 1
   \<and> m_fails (a_audio (audios muted ! 0))
   \<and> intervals ((tick 1 ^^ 3) muted) = [(1, AudioTick 0, 30000)]
   \<and> a_timer (audios ((tick 1 ^^ 3) muted) ! 0) = Some 1
   \<and> m_requests (a_audio (audios ((tick 1 ^^ 3) muted) ! 0)) = 4
   \<and> m_unhandled (a_audio (audios ((tick 1 ^^ 3) muted) ! 0)) = 3"
  using failed_tick_keeps_schedule [where w = muted and r = 0 and t = 1 and n = 3] consistent_muted
  by (simp add: muted_eq blank_def)

subsection \<open>Bundles never throw here; \<^verbatim>\<open>disconnect\<close>\<close>

lemma forEach_returns:
  "(\<And>x w. x \<in> set xs \<Longrightarrow> f x w = Returned (g x w)) \<Longrightarrow> forEach xs f w = Returned (fold g xs w)"
proof (induction xs arbitrary: w)
  case Nil
  show ?case by simp
next
  case (Cons x xs)
  have "forEach xs f (g x w) = Returned (fold g xs (g x w))"
    by (rule Cons.IH) (simp add: Cons.prems)
  then show ?case by (simp add: Cons.prems)
qed

lemma forEach_map: "forEach (map h xs) f w = forEach xs (\<lambda>x. f (h x)) w"
  by (induction xs arbitrary: w) (simp_all split: outcome.splits)

lemma fold_concat_map: "fold f (concat (map g xs)) w = fold (\<lambda>x. fold f (g x)) xs w"
  by (induction xs arbitrary: w) simp_all

lemma perform_methods:
  "perform nm (methods s) w = Returned (fold (cell_op nm) (jobs s) w)"
proof (induction s arbitrary: w)
  case (SBlinker r)
  show ?case by (cases nm) simp_all
next
  case (SAudio r)
  show ?case by (cases nm) simp_all
next
  case (SCompose k ss)
  have "forEach ss (\<lambda>s. perform nm (methods s)) w
      = Returned (fold (\<lambda>s. fold (cell_op nm) (jobs s)) ss w)"
    by (rule forEach_returns) (rule SCompose.IH)
  then show ?case
    by (simp add: perform_ComposeSignal forEach_map fold_concat_map)
qed

lemma stop_methods: "stop (methods s) w = Returned (fold (cell_op OpStop) (jobs s) w)"
  using perform_methods [of OpStop s w] by simp

lemma start_methods: "start (methods s) w = Returned (fold (cell_op OpStart) (jobs s) w)"
  using perform_methods [of OpStart s w] by simp

lemma empty_methods: "empty (methods s) w = Returned (fold (cell_op OpEmpty) (jobs s) w)"
  using perform_methods [of OpEmpty s w] by simp

lemma add_methods: "add (methods s) e w = Returned (fold (cell_op (OpAdd e)) (jobs s) w)"
  using perform_methods [of "OpAdd e" s w] by simp


lemma blinker_update_untouched:
  "watchers (blinker_update r w) = watchers w" "listeners (blinker_update r w) = listeners w"
  "clock (blinker_update r w) = clock w" "composed (blinker_update r w) = composed w"
  "frame_doc (blinker_update r w) = frame_doc w" "audios (blinker_update r w) = audios w"
  "intervals (blinker_update r w) = intervals w" "next_timer (blinker_update r w) = next_timer w"
  "length (blinkers (blinker_update r w)) = length (blinkers w)"
  "b_timer (blinkers (blinker_update r w) ! r') = b_timer (blinkers w ! r')"
  by (simp_all add: blinker_update_def Let_def nth_upd_field)

lemma blinker_stop_untouched:
  "watchers (blinker_stop r w) = watchers w" "listeners (blinker_stop r w) = listeners w"
  "clock (blinker_stop r w) = clock w" "composed (blinker_stop r w) = composed w"
  "frame_doc (blinker_stop r w) = frame_doc w" "audios (blinker_stop r w) = audios w"
  "length (blinkers (blinker_stop r w)) = length (blinkers w)"
  "next_timer (blinker_stop r w) = next_timer w"
  by (simp_all add: blinker_stop_def blinker_update_untouched clearInterval_def Let_def
      split: option.splits)

lemma blinker_start_untouched:
  "watchers (blinker_start r w) = watchers w" "listeners (blinker_start r w) = listeners w"
  "clock (blinker_start r w) = clock w" "composed (blinker_start r w) = composed w"
  "frame_doc (blinker_start r w) = frame_doc w" "audios (blinker_start r w) = audios w"
  "length (blinkers (blinker_start r w)) = length (blinkers w)"
  "classes (blinker_start r w) = classes w"
  by (simp_all add: blinker_start_eq split: option.splits)

lemma blinker_add_untouched:
  "watchers (blinker_add r e w) = watchers w" "listeners (blinker_add r e w) = listeners w"
  "clock (blinker_add r e w) = clock w" "composed (blinker_add r e w) = composed w"
  "frame_doc (blinker_add r e w) = frame_doc w" "audios (blinker_add r e w) = audios w"
  "length (blinkers (blinker_add r e w)) = length (blinkers w)"
  "intervals (blinker_add r e w) = intervals w" "next_timer (blinker_add r e w) = next_timer w"
  "classes (blinker_add r e w) = classes w"
  "b_timer (blinkers (blinker_add r e w) ! r') = b_timer (blinkers w ! r')"
  by (simp_all add: blinker_add_def nth_upd_field)

lemma blinker_empty_untouched:
  "watchers (blinker_empty r w) = watchers w" "listeners (blinker_empty r w) = listeners w"
  "clock (blinker_empty r w) = clock w" "composed (blinker_empty r w) = composed w"
  "frame_doc (blinker_empty r w) = frame_doc w" "audios (blinker_empty r w) = audios w"
  "length (blinkers (blinker_empty r w)) = length (blinkers w)"
  "intervals (blinker_empty r w) = intervals w" "next_timer (blinker_empty r w) = next_timer w"
  "classes (blinker_empty r w) = classes w"
  "b_timer (blinkers (blinker_empty r w) ! r') = b_timer (blinkers w ! r')"
  by (simp_all add: blinker_empty_def nth_upd_field)

lemma audio_play_untouched:
  "watchers (audio_play r w) = watchers w" "listeners (audio_play r w) = listeners w"
  "clock (audio_play r w) = clock w" "composed (audio_play r w) = composed w"
  "frame_doc (audio_play r w) = frame_doc w" "classes (audio_play r w) = classes w"
  by (simp_all add: audio_play_eq)

lemma audio_start_untouched:
  "watchers (audio_start r w) = watchers w" "listeners (audio_start r w) = listeners w"
  "clock (audio_start r w) = clock w" "composed (audio_start r w) = composed w"
  "frame_doc (audio_start r w) = frame_doc w" "blinkers (audio_start r w) = blinkers w"
  "length (audios (audio_start r w)) = length (audios w)"
  "classes (audio_start r w) = classes w"
  by (simp_all add: audio_start_eq audio_play_untouched audio_play_frame split: option.splits)

lemma audio_stop_untouched:
  "watchers (audio_stop r w) = watchers w" "listeners (audio_stop r w) = listeners w"
  "clock (audio_stop r w) = clock w" "composed (audio_stop r w) = composed w"
  "frame_doc (audio_stop r w) = frame_doc w" "blinkers (audio_stop r w) = blinkers w"
  "length (audios (audio_stop r w)) = length (audios w)"
  "classes (audio_stop r w) = classes w" "next_timer (audio_stop r w) = next_timer w"
  by (simp_all add: audio_stop_eq split: option.splits)

lemma audio_add_untouched:
  "watchers (audio_add r e w) = watchers w" "listeners (audio_add r e w) = listeners w"
  "clock (audio_add r e w) = clock w" "composed (audio_add r e w) = composed w"
  "frame_doc (audio_add r e w) = frame_doc w" "blinkers (audio_add r e w) = blinkers w"
  "length (audios (audio_add r e w)) = length (audios w)"
  "intervals (audio_add r e w) = intervals w" "next_timer (audio_add r e w) = next_timer w"
  "classes (audio_add r e w) = classes w"
  "a_timer (audios (audio_add r e w) ! r') = a_timer (audios w ! r')"
  by (simp_all add: audio_add_def nth_upd_field)

lemma audio_empty_untouched:
  "watchers (audio_empty r w) = watchers w" "listeners (audio_empty r w) = listeners w"
  "clock (audio_empty r w) = clock w" "composed (audio_empty r w) = composed w"
  "frame_doc (audio_empty r w) = frame_doc w" "blinkers (audio_empty r w) = blinkers w"
  "length (audios (audio_empty r w)) = length (audios w)"
  "intervals (audio_empty r w) = intervals w" "next_timer (audio_empty r w) = next_timer w"
  "classes (audio_empty r w) = classes w"
  "a_timer (audios (audio_empty r w) ! r') = a_timer (audios w ! r')"
  by (simp_all add: audio_empty_def nth_upd_field)

lemmas untouched = blinker_update_untouched blinker_stop_untouched blinker_start_untouched
  blinker_add_untouched blinker_empty_untouched audio_play_untouched audio_start_untouched
  audio_stop_untouched audio_add_untouched audio_empty_untouched

lemma cell_op_untouched:
  "watchers (cell_op nm j w) = watchers w" "listeners (cell_op nm j w) = listeners w"
  "clock (cell_op nm j w) = clock w" "composed (cell_op nm j w) = composed w"
  "frame_doc (cell_op nm j w) = frame_doc w"
  "length (blinkers (cell_op nm j w)) = length (blinkers w)"
  "length (audios (cell_op nm j w)) = length (audios w)"
  by (cases nm; cases j; simp add: untouched)+

lemma cell_exists_cell_op: "cell_exists (cell_op nm j w) j' = cell_exists w j'"
  by (cases j') (simp_all add: cell_op_untouched)

lemma consistent_cell_op:
  "consistent w \<Longrightarrow> cell_exists w j \<Longrightarrow> consistent (cell_op nm j w)"
  by (cases nm; cases j)
    (simp_all add: consistent_blinker_start consistent_blinker_stop consistent_blinker_add
      consistent_blinker_empty consistent_audio_start consistent_audio_stop consistent_audio_add
      consistent_audio_empty)

lemma fold_cell_op:
  assumes "\<forall>j \<in> set js. cell_exists w j"
  shows "(consistent w \<longrightarrow> consistent (fold (cell_op nm) js w))
    \<and> watchers (fold (cell_op nm) js w) = watchers w
    \<and> listeners (fold (cell_op nm) js w) = listeners w
    \<and> clock (fold (cell_op nm) js w) = clock w
    \<and> composed (fold (cell_op nm) js w) = composed w
    \<and> frame_doc (fold (cell_op nm) js w) = frame_doc w
    \<and> length (blinkers (fold (cell_op nm) js w)) = length (blinkers w)
    \<and> length (audios (fold (cell_op nm) js w)) = length (audios w)"
  using assms
proof (induction js arbitrary: w)
  case Nil
  show ?case by simp
next
  case (Cons j js)
  have "\<forall>j' \<in> set js. cell_exists (cell_op nm j w) j'"
    using Cons.prems by (simp add: cell_exists_cell_op)
  from Cons.IH [OF this] show ?case
    using Cons.prems by (simp add: cell_op_untouched consistent_cell_op)
qed









lemma fold_removeEventListener:
  "fold (\<lambda>e. removeEventListener e s) es w =
     w\<lparr>listeners := fold (\<lambda>e L. L(e := filter (\<lambda>s'. s' \<noteq> s) (L e))) es (listeners w)\<rparr>"
  by (induction es arbitrary: w) (simp_all add: removeEventListener_def)

lemma fold_unlisten:
  "fold (\<lambda>e L. L(e := filter (\<lambda>s'. s' \<noteq> s) (L e))) es L e' =
     (if e' \<in> set es then filter (\<lambda>s'. s' \<noteq> s) (L e') else L e')"
  by (induction es arbitrary: L) auto

lemma disconnect_eq:
  "disconnect h w =
     Returned (fold (cell_op OpEmpty) (jobs (h_signal (watchers w ! h)))
       (fold (cell_op OpStop) (jobs (h_signal (watchers w ! h)))
         (w\<lparr>watchers := (watchers w)[h := (watchers w ! h)\<lparr>h_observed := []\<rparr>],
            listeners := fold (\<lambda>e L. L(e := filter (\<lambda>s'. s' \<noteq> h_signal (watchers w ! h)) (L e)))
                           (h_source (watchers w ! h) # h_targets (watchers w ! h)) (listeners w)\<rparr>)))"
  by (simp add: disconnect_def Let_def stop_methods empty_methods observer_disconnect_def
      removeEventListener_def fold_removeEventListener)




lemma birdseye_fields:
  "d_be_hosts birdseye = 1" "d_be_dash birdseye = 2" "d_styles birdseye = []"
  by (simp_all add: birdseye_def)

lemma watching_eq:
  "watching =
    (\<lparr> k_observer = Some 0, k_sos = 0, k_alarm = 0, k_signal = SCompose 0 [SBlinker 0, SAudio 0] \<rparr>,
     \<lparr> clock = 0,
       blinkers = [\<lparr> b_on = ''sos-on'', b_off = ''sos-off'', b_time = 250,
                 b_pattern = sos_pattern,
                 b_targets = [2], b_timer = None, b_i = Num 1 \<rparr>],
       audios = [\<lparr> a_time = 30000, a_targets = [2], a_timer = None,
                 a_audio = \<lparr> m_src = bell,
                   m_paused = True, m_fails = False, m_requests = 0, m_unhandled = 0 \<rparr> \<rparr>],
       composed = 1,
       watchers = [\<lparr> h_source = 1, h_targets = [2], h_signal = SCompose 0 [SBlinker 0, SAudio 0],
                    h_observed = [1], h_filter = \<lparr> first = True, early = True, mark = 0 \<rparr> \<rparr>],
       intervals = [], next_timer = 1,
       classes = (\<lambda>e. []),
       listeners = (\<lambda>e. [])(1 := [SCompose 0 [SBlinker 0, SAudio 0]], 2 := [SCompose 0 [SBlinker 0, SAudio 0]]),
       frame_doc = birdseye\<lparr>d_styles := [sos_style]\<rparr> \<rparr>)"
  unfolding watching_def nagios_hawk_blank
  by (simp add: blank_def birdseye_fields attack_def inject_style_def Hawkeye_def connect_def
      observe_def addEventListener_def Let_def ComposeSignal_def blinker_add_def audio_add_def
      ignore_too_early_call_def)


lemma alarmed_eq:
  "alarmed =
     \<lparr> clock = 5000,
       blinkers = [\<lparr> b_on = ''sos-on'', b_off = ''sos-off'', b_time = 250,
                 b_pattern = sos_pattern,
                 b_targets = [2], b_timer = Some 1, b_i = Num 1 \<rparr>],
       audios = [\<lparr> a_time = 30000, a_targets = [2], a_timer = Some 2,
                 a_audio = \<lparr> m_src = bell,
                   m_paused = False, m_fails = False, m_requests = 1, m_unhandled = 0 \<rparr> \<rparr>],
       composed = 1,
       watchers = [\<lparr> h_source = 1, h_targets = [2], h_signal = SCompose 0 [SBlinker 0, SAudio 0],
                    h_observed = [1], h_filter = \<lparr> first = False, early = True, mark = 0 \<rparr> \<rparr>],
       intervals = [(1, BlinkerTick 0, 250), (2, AudioTick 0, 30000)], next_timer = 3,
       classes = (\<lambda>e. []),
       listeners = (\<lambda>e. [])(1 := [SCompose 0 [SBlinker 0, SAudio 0]], 2 := [SCompose 0 [SBlinker 0, SAudio 0]]),
       frame_doc = birdseye\<lparr>d_styles := [sos_style]\<rparr> \<rparr>"
  unfolding alarmed_def watching_eq snd_conv
  by (simp add: children_changed_def delivered_def on_change_def filtered_def Let_def
      start_methods blinker_start_eq audio_start_eq audio_play_eq del: methods.simps)



subsection \<open>\<^verbatim>\<open>attack\<close>\<close>

lemma fold_cell_op_untouched:
  "watchers (fold (cell_op nm) js w) = watchers w"
  "listeners (fold (cell_op nm) js w) = listeners w"
  "clock (fold (cell_op nm) js w) = clock w"
  "composed (fold (cell_op nm) js w) = composed w"
  "frame_doc (fold (cell_op nm) js w) = frame_doc w"
  "length (blinkers (fold (cell_op nm) js w)) = length (blinkers w)"
  "length (audios (fold (cell_op nm) js w)) = length (audios w)"
  by (induction js arbitrary: w) (simp_all add: cell_op_untouched)

lemma addEventListener_untouched:
  "watchers (addEventListener e s w) = watchers w" "blinkers (addEventListener e s w) = blinkers w"
  "audios (addEventListener e s w) = audios w" "composed (addEventListener e s w) = composed w"
  "intervals (addEventListener e s w) = intervals w" "clock (addEventListener e s w) = clock w"
  "frame_doc (addEventListener e s w) = frame_doc w"
  "next_timer (addEventListener e s w) = next_timer w"
  by (simp_all add: addEventListener_def)

lemma observe_untouched:
  "blinkers (observe h node w) = blinkers w" "audios (observe h node w) = audios w"
  "composed (observe h node w) = composed w" "intervals (observe h node w) = intervals w"
  "clock (observe h node w) = clock w" "frame_doc (observe h node w) = frame_doc w"
  "listeners (observe h node w) = listeners w" "next_timer (observe h node w) = next_timer w"
  "length (watchers (observe h node w)) = length (watchers w)"
  "h_signal (watchers (observe h node w) ! h') = h_signal (watchers w ! h')"
  "h_source (watchers (observe h node w) ! h') = h_source (watchers w ! h')"
  "h_targets (watchers (observe h node w) ! h') = h_targets (watchers w ! h')"
  "h_filter (watchers (observe h node w) ! h') = h_filter (watchers w ! h')"
  by (simp_all add: observe_def Let_def nth_upd_field)

lemma observe_earlier: "take h (watchers (observe h node w)) = take h (watchers w)"
  by (simp add: observe_def Let_def)

lemma attack_effect:
  "attack k w = (k', out) \<Longrightarrow>
     k_observer k' = Some (length (watchers w))
     \<and> k_signal k' = k_signal k \<and> k_sos k' = k_sos k \<and> k_alarm k' = k_alarm k
     \<and> length (watchers (reported out)) = Suc (length (watchers w))
     \<and> h_signal (watchers (reported out) ! length (watchers w)) = k_signal k
     \<and> h_source (watchers (reported out) ! length (watchers w)) = d_be_hosts (frame_doc w)
     \<and> h_targets (watchers (reported out) ! length (watchers w)) = [d_be_dash (frame_doc w)]
     \<and> h_filter (watchers (reported out) ! length (watchers w)) = ignore_too_early_call (clock w)
     \<and> take (length (watchers w)) (watchers (reported out)) = watchers w
     \<and> length (blinkers (reported out)) = length (blinkers w)
     \<and> length (audios (reported out)) = length (audios w)
     \<and> composed (reported out) = composed w"
  by (auto simp add: attack_def Hawkeye_def connect_def inject_style_def Let_def add_methods
      fold_cell_op_untouched addEventListener_untouched observe_untouched observe_earlier
      simp del: methods.simps)


lemma attack_twice:
  assumes a1: "attack k w = (k1, o1)" and a2: "attack k1 (reported o1) = (k2, o2)"
  shows "k_observer k1 = Some (length (watchers w))
     \<and> k_observer k2 = Some (Suc (length (watchers w)))
     \<and> length (watchers (reported o2)) = Suc (Suc (length (watchers w)))
     \<and> h_signal (watchers (reported o2) ! length (watchers w)) = k_signal k
     \<and> h_signal (watchers (reported o2) ! Suc (length (watchers w))) = k_signal k
     \<and> k_signal k2 = k_signal k \<and> k_sos k2 = k_sos k \<and> k_alarm k2 = k_alarm k
     \<and> length (blinkers (reported o2)) = length (blinkers w)
     \<and> length (audios (reported o2)) = length (audios w)
     \<and> composed (reported o2) = composed w"
proof -
  note e1 = attack_effect [OF a1] and e2 = attack_effect [OF a2]
  let ?n = "length (watchers w)"
  have "watchers (reported o2) ! ?n = take (Suc ?n) (watchers (reported o2)) ! ?n"
    by simp
  also have "\<dots> = watchers (reported o1) ! ?n"
    using e1 e2 by simp
  finally have first: "h_signal (watchers (reported o2) ! ?n) = k_signal k"
    using e1 by simp
  show ?thesis
    using e1 e2 first by simp
qed

text \<open>
  C3. The claim: every \<^verbatim>\<open>attack()\<close> builds a new alarm, a new blinker and a new
  composition of the two, and no signal is shared between two calls. The code: the three
  are built once, by \<^verbatim>\<open>nagios_hawk\<close>, and \<^verbatim>\<open>attack\<close> hands the same
  \<^verbatim>\<open>signal\<close> to every \<^verbatim>\<open>Hawkeye\<close> it builds. After two calls on a fresh page
  there are two watchers, both around the composition number 0 of blinker 0 and alarm 0,
  and still one blinker, one alarm and one composition.
\<close>

theorem two_attacks_share_one_signal:
  "(case nagios_hawk blank of (k0, w0) \<Rightarrow>
      (case attack k0 w0 of (k1, o1) \<Rightarrow>
         (case attack k1 (reported o1) of (k2, o2) \<Rightarrow>
            k_observer k1 = Some 0 \<and> k_observer k2 = Some 1
            \<and> h_signal (watchers (reported o2) ! 0) = SCompose 0 [SBlinker 0, SAudio 0]
            \<and> h_signal (watchers (reported o2) ! 1) = SCompose 0 [SBlinker 0, SAudio 0]
            \<and> length (blinkers (reported o2)) = 1
            \<and> length (audios (reported o2)) = 1
            \<and> composed (reported o2) = 1)))"
proof -
  obtain k0 w0 where n: "nagios_hawk blank = (k0, w0)" by (cases "nagios_hawk blank")
  obtain k1 o1 where a1: "attack k0 w0 = (k1, o1)" by (cases "attack k0 w0")
  obtain k2 o2 where a2: "attack k1 (reported o1) = (k2, o2)" by (cases "attack k1 (reported o1)")
  have k0: "k_signal k0 = SCompose 0 [SBlinker 0, SAudio 0]"
    and w0: "length (watchers w0) = 0" "length (blinkers w0) = 1" "length (audios w0) = 1"
      "composed w0 = 1"
    using n unfolding nagios_hawk_blank by (auto simp add: blank_def)
  from attack_twice [OF a1 a2] show ?thesis
    by (simp add: n a1 a2 k0 w0)
qed

text \<open>
  C3, as the code has it: every \<^verbatim>\<open>attack()\<close> builds a new watcher (it was not in the
  store before) for the source and the target of the frame's current document, and
  builds no signal: each new watcher holds the composed signal that \<^verbatim>\<open>nagios_hawk\<close>
  built, the controller keeps holding it, and the numbers of blinkers, alarms and
  compositions in the store do not change. Two calls in a row give two watchers that
  share that signal.
\<close>

theorem attack_builds_a_watcher_and_no_signal:
  "(case attack k w of (k1, o1) \<Rightarrow>
      (case attack k1 (reported o1) of (k2, o2) \<Rightarrow>
         k_observer k1 = Some (length (watchers w))
         \<and> k_observer k2 = Some (Suc (length (watchers w)))
         \<and> length (watchers (reported o1)) = Suc (length (watchers w))
         \<and> length (watchers (reported o2)) = Suc (Suc (length (watchers w)))
         \<and> h_source (watchers (reported o1) ! length (watchers w)) = d_be_hosts (frame_doc w)
         \<and> h_targets (watchers (reported o1) ! length (watchers w)) = [d_be_dash (frame_doc w)]
         \<and> h_signal (watchers (reported o1) ! length (watchers w)) = k_signal k
         \<and> h_signal (watchers (reported o2) ! length (watchers w)) = k_signal k
         \<and> h_signal (watchers (reported o2) ! Suc (length (watchers w))) = k_signal k
         \<and> k_signal k1 = k_signal k \<and> k_signal k2 = k_signal k
         \<and> length (blinkers (reported o1)) = length (blinkers w)
         \<and> length (audios (reported o1)) = length (audios w)
         \<and> composed (reported o1) = composed w
         \<and> length (blinkers (reported o2)) = length (blinkers w)
         \<and> length (audios (reported o2)) = length (audios w)
         \<and> composed (reported o2) = composed w))"
proof -
  obtain k1 o1 where a1: "attack k w = (k1, o1)" by (cases "attack k w")
  obtain k2 o2 where a2: "attack k1 (reported o1) = (k2, o2)" by (cases "attack k1 (reported o1)")
  from attack_effect [OF a1] attack_twice [OF a1 a2] show ?thesis
    by (simp add: a1 a2)
qed

theorem attack_builds_a_watcher_and_no_signal_witness:
  "(case attack (fst watching) (snd watching) of (k1, o1) \<Rightarrow>
      (case attack k1 (reported o1) of (k2, o2) \<Rightarrow>
         length (watchers (snd watching)) = 1
         \<and> k_signal (fst watching) = SCompose 0 [SBlinker 0, SAudio 0]
         \<and> k_observer k1 = Some 1 \<and> k_observer k2 = Some 2
         \<and> length (watchers (reported o2)) = 3
         \<and> h_signal (watchers (reported o2) ! 1) = SCompose 0 [SBlinker 0, SAudio 0]
         \<and> h_signal (watchers (reported o2) ! 2) = SCompose 0 [SBlinker 0, SAudio 0]
         \<and> length (blinkers (reported o2)) = 1
         \<and> length (audios (reported o2)) = 1
         \<and> composed (reported o2) = 1))"
  using attack_builds_a_watcher_and_no_signal [where k = "fst watching" and w = "snd watching"]
  by (simp add: watching_eq numeral_2_eq_2 numeral_3_eq_3 split: prod.splits)

subsection \<open>Every store the page reaches\<close>

text \<open>
  The agreement of timer table and timer variables, which the theorems on
  \<^verbatim>\<open>start\<close>, on the alarm's ticks and on \<^verbatim>\<open>disconnect\<close> assume, holds on the page
  \<^verbatim>\<open>nagios_hawk\<close> leaves and is kept by everything that can happen there.
\<close>

lemma sound_cong:
  assumes "sound k w"
    and "consistent w'"
    and "length (blinkers w') = length (blinkers w)" and "length (audios w') = length (audios w)"
    and "watchers w' = watchers w" and "listeners w' = listeners w"
  shows "sound k w'"
proof -
  have "cell_exists w' j = cell_exists w j" for j
    using assms(3,4) by (cases j) simp_all
  with assms show ?thesis by (simp add: sound_def)
qed

lemma sound_fold_cell_op:
  assumes "sound k w"
  shows "sound k (fold (cell_op nm) (jobs (k_signal k)) w)"
proof -
  have e: "\<forall>j \<in> set (jobs (k_signal k)). cell_exists w j"
    using assms by (simp add: sound_def)
  from fold_cell_op [OF e, of nm] assms show ?thesis
    by (intro sound_cong [OF assms]) (simp_all add: sound_def)
qed

lemma consistent_run_job: "consistent (run_job j w) = consistent w"
  by (cases j) (simp_all add: consistent_blinker_update consistent_audio_play)

lemma run_job_untouched:
  "watchers (run_job j w) = watchers w" "listeners (run_job j w) = listeners w"
  "length (blinkers (run_job j w)) = length (blinkers w)"
  "length (audios (run_job j w)) = length (audios w)"
  by (cases j; simp add: untouched audio_play_frame)+

lemma sound_tick: "sound k w \<Longrightarrow> sound k (tick t w)"
proof -
  assume s: "sound k w"
  have "sound k (run_job j w)" for j
    using s by (intro sound_cong [OF s]) (simp_all add: consistent_run_job sound_def run_job_untouched)
  then show ?thesis
    by (simp add: tick_def s split: option.splits)
qed


lemma sound_click: "sound k w \<Longrightarrow> sound k (click e w)"
proof -
  assume s: "sound k w"
  have all: "sound k (fold (\<lambda>s w'. reported (stop (methods s) w')) ls w')"
    if "\<forall>s \<in> set ls. s = k_signal k" and "sound k w'" for ls w'
    using that
  proof (induction ls arbitrary: w')
    case Nil
    then show ?case by simp
  next
    case (Cons a ls)
    from Cons.prems have "sound k (fold (cell_op OpStop) (jobs a) w')"
      by (simp add: sound_fold_cell_op)
    with Cons.IH Cons.prems show ?case
      by (simp add: stop_methods del: methods.simps)
  qed
  from s have "\<forall>s \<in> set (listeners w e). s = k_signal k"
    by (simp add: sound_def)
  from all [OF this s] show ?thesis
    by (simp add: click_def)
qed

lemma sound_filter_kept:
  assumes "sound k w" and "h < length (watchers w)"
  shows "sound k (w\<lparr>watchers := (watchers w)[h := (watchers w ! h)\<lparr>h_filter := d\<rparr>]\<rparr>)"
proof -
  let ?w = "w\<lparr>watchers := (watchers w)[h := (watchers w ! h)\<lparr>h_filter := d\<rparr>]\<rparr>"
  have c: "consistent ?w = consistent w"
    by (rule consistent_cong) simp_all
  have e: "cell_exists ?w j = cell_exists w j" for j
    by (cases j) simp_all
  have "h_signal x = k_signal k" if "x \<in> set (watchers ?w)" for x
  proof -
    from that have "x = (watchers w ! h)\<lparr>h_filter := d\<rparr> \<or> x \<in> set (watchers w)"
      using set_update_subset_insert [of "watchers w" h] by auto
    with assms show ?thesis by (auto simp add: sound_def)
  qed
  with assms c e show ?thesis
    by (simp add: sound_def)
qed

lemma sound_on_change:
  assumes "sound k w" and "h < length (watchers w)"
  shows "sound k (reported (on_change h w))
     \<and> length (watchers (reported (on_change h w))) = length (watchers w)"
proof -
  have sig: "h_signal (watchers w ! h) = k_signal k"
    using assms by (simp add: sound_def)
  let ?g = "fold (cell_op OpStart) (jobs (k_signal k)) w"
  have g: "sound k ?g" using assms(1) by (rule sound_fold_cell_op)
  have lg: "watchers ?g = watchers w"
    by (simp add: fold_cell_op_untouched)
  from g lg assms(2) have "h < length (watchers ?g)" by simp
  note kept = sound_filter_kept [OF g this] sound_filter_kept [OF assms]
  show ?thesis
    using kept
    by (simp add: on_change_def filtered_def Let_def sig start_methods lg del: methods.simps)
qed


lemma sound_children_changed: "sound k w \<Longrightarrow> sound k (children_changed node w)"
proof -
  assume s: "sound k w"
  have "sound k (fold (delivered node) hs w')
      \<and> length (watchers (fold (delivered node) hs w')) = length (watchers w')"
    if "\<forall>h \<in> set hs. h < length (watchers w')" and "sound k w'" for hs w'
    using that
  proof (induction hs arbitrary: w')
    case Nil
    then show ?case by simp
  next
    case (Cons h hs)
    from Cons.prems have h: "h < length (watchers w')" by simp
    from sound_on_change [OF Cons.prems(2) h] Cons.prems(2)
    have d: "sound k (delivered node h w')"
      "length (watchers (delivered node h w')) = length (watchers w')"
      by (simp_all add: delivered_def)
    from Cons.prems d(2) have "\<forall>h' \<in> set hs. h' < length (watchers (delivered node h w'))"
      by simp
    from Cons.IH [OF this d(1)] d(2) show ?case by simp
  qed
  from this [of "[0 ..< length (watchers w)]" w] s show ?thesis
    by (simp add: children_changed_def)
qed

lemma sound_watcher_upd:
  assumes "sound k w" and "h_signal x = k_signal k"
  shows "sound k (w\<lparr>watchers := (watchers w)[h := x]\<rparr>)"
proof -
  let ?w = "w\<lparr>watchers := (watchers w)[h := x]\<rparr>"
  have c: "consistent ?w = consistent w"
    by (rule consistent_cong) simp_all
  have e: "cell_exists ?w j = cell_exists w j" for j
    by (cases j) simp_all
  have "h_signal y = k_signal k" if "y \<in> set (watchers ?w)" for y
  proof -
    from that have "y = x \<or> y \<in> set (watchers w)"
      using set_update_subset_insert [of "watchers w" h x] by auto
    with assms show ?thesis by (auto simp add: sound_def)
  qed
  with assms c e show ?thesis
    by (simp add: sound_def)
qed

lemma sound_observe:
  assumes "sound k w" and "h < length (watchers w)"
  shows "sound k (observe h node w)"
proof -
  have "h_signal (watchers w ! h) = k_signal k"
    using assms by (simp add: sound_def)
  then show ?thesis
    using assms(1) by (simp add: observe_def Let_def sound_watcher_upd)
qed

lemma sound_listeners:
  assumes "sound k w" and "\<And>e. set (L e) \<subseteq> insert (k_signal k) (set (listeners w e))"
  shows "sound k (w\<lparr>listeners := L\<rparr>)"
proof -
  let ?w = "w\<lparr>listeners := L\<rparr>"
  have c: "consistent ?w = consistent w"
    by (rule consistent_cong) simp_all
  have e: "cell_exists ?w j = cell_exists w j" for j
    by (cases j) simp_all
  have "s = k_signal k" if "s \<in> set (L e)" for s e
  proof -
    from that assms(2) [of e] have "s = k_signal k \<or> s \<in> set (listeners w e)" by blast
    with assms(1) show ?thesis by (auto simp add: sound_def)
  qed
  with assms(1) c e show ?thesis
    by (simp add: sound_def)
qed

lemma sound_addEventListener:
  "sound k w \<Longrightarrow> sound k (addEventListener e (k_signal k) w)"
  by (auto simp add: addEventListener_def intro!: sound_listeners split: if_splits)

lemma sound_new_watcher:
  assumes "sound k w" and "h_signal x = k_signal k"
  shows "sound (k\<lparr>k_observer := Some (length (watchers w))\<rparr>)
           (w\<lparr>frame_doc := d, watchers := watchers w @ [x]\<rparr>)"
proof -
  let ?w = "w\<lparr>frame_doc := d, watchers := watchers w @ [x]\<rparr>"
  have c: "consistent ?w = consistent w"
    by (rule consistent_cong) simp_all
  have e: "cell_exists ?w j = cell_exists w j" for j
    by (cases j) simp_all
  from assms c e show ?thesis
    by (auto simp add: sound_def)
qed

lemma attack_eq:
  "attack k w =
     (k\<lparr>k_observer := Some (length (watchers w))\<rparr>,
      Returned
       (addEventListener (d_be_dash (frame_doc w)) (k_signal k)
         (fold (cell_op (OpAdd (d_be_dash (frame_doc w)))) (jobs (k_signal k))
           (addEventListener (d_be_hosts (frame_doc w)) (k_signal k)
             (observe (length (watchers w)) (d_be_hosts (frame_doc w))
               (w\<lparr>frame_doc := (frame_doc w)\<lparr>d_styles := d_styles (frame_doc w) @ [sos_style]\<rparr>,
                  watchers := watchers w @
                    [\<lparr> h_source = d_be_hosts (frame_doc w), h_targets = [d_be_dash (frame_doc w)],
                       h_signal = k_signal k, h_observed = [],
                       h_filter = ignore_too_early_call (clock w) \<rparr>]\<rparr>))))))"
  by (simp add: attack_def Hawkeye_def connect_def inject_style_def Let_def add_methods
      fold_cell_op_untouched addEventListener_untouched observe_untouched del: methods.simps)

lemma sound_attack:
  assumes "sound k w"
  shows "sound (fst (attack k w)) (reported (snd (attack k w)))"
proof -
  let ?k = "k\<lparr>k_observer := Some (length (watchers w))\<rparr>"
  let ?x = "\<lparr> h_source = d_be_hosts (frame_doc w), h_targets = [d_be_dash (frame_doc w)],
             h_signal = k_signal k, h_observed = [],
             h_filter = ignore_too_early_call (clock w) \<rparr>"
  let ?w1 = "w\<lparr>frame_doc := (frame_doc w)\<lparr>d_styles := d_styles (frame_doc w) @ [sos_style]\<rparr>,
               watchers := watchers w @ [?x]\<rparr>"
  have 1: "sound ?k ?w1"
    using assms by (intro sound_new_watcher) simp_all
  have 2: "sound ?k (observe (length (watchers w)) (d_be_hosts (frame_doc w)) ?w1)"
    using 1 by (rule sound_observe) simp
  have ks: "k_signal ?k = k_signal k" by simp
  note 3 = sound_addEventListener [OF 2, of "d_be_hosts (frame_doc w)", unfolded ks]
  note 4 = sound_fold_cell_op [OF 3, of "OpAdd (d_be_dash (frame_doc w))", unfolded ks]
  note 5 = sound_addEventListener [OF 4, of "d_be_dash (frame_doc w)", unfolded ks]
  show ?thesis
    unfolding attack_eq fst_conv snd_conv reported.simps by (rule 5)
qed

lemma sound_disconnect:
  assumes "sound k w" and "h < length (watchers w)"
  shows "sound k (reported (disconnect h w))"
proof -
  have sig: "h_signal (watchers w ! h) = k_signal k"
    using assms by (simp add: sound_def)
  define L where "L = fold (\<lambda>e L. L(e := filter (\<lambda>s'. s' \<noteq> k_signal k) (L e)))
      (h_source (watchers w ! h) # h_targets (watchers w ! h)) (listeners w)"
  have 1: "sound k (w\<lparr>watchers := (watchers w)[h := (watchers w ! h)\<lparr>h_observed := []\<rparr>]\<rparr>)"
    using assms(1) by (rule sound_watcher_upd) (simp add: sig)
  have "set (L e) \<subseteq> insert (k_signal k)
      (set (listeners (w\<lparr>watchers := (watchers w)[h := (watchers w ! h)\<lparr>h_observed := []\<rparr>]\<rparr>) e))" for e
    unfolding L_def fold_unlisten by auto
  from sound_listeners [OF 1 this]
  have 2: "sound k (w\<lparr>watchers := (watchers w)[h := (watchers w ! h)\<lparr>h_observed := []\<rparr>], listeners := L\<rparr>)"
    by simp
  note 3 = sound_fold_cell_op [OF 2, of OpStop]
  note 4 = sound_fold_cell_op [OF 3, of OpEmpty]
  show ?thesis
    unfolding disconnect_eq reported.simps sig using 4 unfolding L_def .
qed

lemma sound_rest: "sound k w \<Longrightarrow> sound (fst (rest k w)) (reported (snd (rest k w)))"
  by (cases "k_observer k") (simp_all add: rest_def sound_disconnect sound_def [of k w])

lemma sound_wake: "sound k w \<Longrightarrow> sound (fst (wake k w)) (reported (snd (wake k w)))"
  by (simp add: wake_def sound_attack sound_rest)


lemma sound_clock: "sound k w \<Longrightarrow> sound k (w\<lparr>clock := now\<rparr>)"
proof -
  assume s: "sound k w"
  have "consistent (w\<lparr>clock := now\<rparr>) = consistent w"
    by (rule consistent_cong) simp_all
  with s show ?thesis
    by (intro sound_cong [OF s]) (simp_all add: sound_def)
qed

lemma sound_frame_doc: "sound k w \<Longrightarrow> sound k (w\<lparr>frame_doc := d\<rparr>)"
proof -
  assume s: "sound k w"
  have "consistent (w\<lparr>frame_doc := d\<rparr>) = consistent w"
    by (rule consistent_cong) simp_all
  with s show ?thesis
    by (intro sound_cong [OF s]) (simp_all add: sound_def)
qed

lemma sound_playback_fails: "sound k w \<Longrightarrow> sound k (playback_fails r f w)"
proof -
  assume s: "sound k w"
  then show ?thesis
    by (intro sound_cong [OF s])
      (simp_all add: consistent_playback_fails sound_def, simp_all add: playback_fails_def)
qed

lemma sound_nagios_hawk_blank: "sound (fst (nagios_hawk blank)) (snd (nagios_hawk blank))"
  using consistent_nagios_hawk [OF consistent_blank]
  unfolding sound_def nagios_hawk_blank fst_conv snd_conv
  by (simp add: blank_def)

lemma sound_step:
  assumes "sound (fst x) (snd x)"
  shows "sound (fst (step ev x)) (snd (step ev x))"
proof -
  obtain k w where x: "x = (k, w)" by (cases x)
  with assms have s: "sound k w" by simp
  show ?thesis
  proof (cases ev)
    case (Load d)
    from sound_wake [OF sound_frame_doc [OF s, of d]] show ?thesis
      by (auto simp add: x Load split: prod.splits)
  next
    case (Tick t)
    with s show ?thesis by (simp add: x sound_tick)
  next
    case (Click e)
    with s show ?thesis by (simp add: x sound_click)
  next
    case (Changed node)
    with s show ?thesis by (simp add: x sound_children_changed)
  next
    case (Clock now)
    with s show ?thesis by (simp add: x sound_clock)
  next
    case (Playback r f)
    with s show ?thesis by (simp add: x sound_playback_fails)
  next
    case Attack
    from sound_attack [OF s] show ?thesis
      by (auto simp add: x Attack split: prod.splits)
  next
    case Rest
    from sound_rest [OF s] show ?thesis
      by (auto simp add: x Rest split: prod.splits)
  next
    case Wake
    from sound_wake [OF s] show ?thesis
      by (auto simp add: x Wake split: prod.splits)
  qed
qed

lemma sound_fold_step:
  "sound (fst x) (snd x) \<Longrightarrow> sound (fst (fold step evs x)) (snd (fold step evs x))"
  by (induction evs arbitrary: x) (simp_all add: sound_step)

lemma every_reachable_store_is_sound:
  "sound (fst (fold step evs (nagios_hawk blank))) (snd (fold step evs (nagios_hawk blank)))"
  by (rule sound_fold_step [OF sound_nagios_hawk_blank])


subsection \<open>After \<^verbatim>\<open>disconnect()\<close>\<close>















text \<open>
  What \<^verbatim>\<open>disconnect()\<close> is called with by \<^verbatim>\<open>rest()\<close>, on every store the page
  reaches, meets the conditions under which it is studied below.
\<close>

lemma rest_meets_the_conditions:
  assumes "sound k w" and "k_observer k = Some h"
  shows "consistent w \<and> h < length (watchers w)
     \<and> (\<forall>j \<in> set (jobs (h_signal (watchers w ! h))). cell_exists w j)"
proof -
  from assms have h: "h < length (watchers w)" by (simp add: sound_def)
  then have "watchers w ! h \<in> set (watchers w)" by simp
  with assms(1) have "h_signal (watchers w ! h) = k_signal k" by (simp add: sound_def)
  with assms(1) h show ?thesis by (simp add: sound_def)
qed




lemma sound_crowded: "sound (fst crowded) (snd crowded)"
  unfolding crowded_def by (rule every_reachable_store_is_sound)








text \<open>
  The silence of a disconnected watcher is its observer's: it no longer observes, so the
  browser has nothing to deliver to it. The callback has no guard of its own; on the page
  with one watcher, running it once more after \<^verbatim>\<open>disconnect()\<close> would arm two timers.
\<close>

lemma callback_has_no_guard:
  "intervals (reported (disconnect 0 alarmed)) = []
   \<and> intervals (reported (on_change 0 (reported (disconnect 0 alarmed))))
       = [(3, BlinkerTick 0, 250), (4, AudioTick 0, 30000)]"
  by (simp add: disconnect_eq alarmed_eq blinker_stop_eq audio_stop_eq blinker_empty_def
      audio_empty_def on_change_def filtered_def Let_def start_methods blinker_start_eq
      audio_start_eq audio_play_eq del: methods.simps)

end
